theory Spec2Isabelle
  imports Main "HOL-Library.Word"
begin

section \<open>Values of the host language\<close>

text \<open>
  The photo application is a TypeScript class on top of a vendor SDK, Express and the
  Node.js standard library. The embedding keeps the program's own functions and the
  class fields as they are written, and passes every answer of the outside world
  (the clock, the file system, the camera, the object store, the template engine) as
  an explicit argument.

  A \<open>Buffer\<close> is a list of bytes. A \<open>Date\<close> is represented by its time value, the
  number of milliseconds since the epoch; only valid dates are represented. A field
  that may be \<open>undefined\<close> at run time is an \<open>option\<close>.
\<close>

type_synonym buffer = "8 word list"

type_synonym date = int

text \<open>A thrown JavaScript value: the error's name and its message.\<close>

datatype js_error = JsError string string

fun errorString :: "js_error \<Rightarrow> string" where
  "errorString (JsError name msg) = name @ '': '' @ msg"

text \<open>
  An operation that can throw returns the exception, if any, together with the state
  it leaves behind: the effects made before a \<open>throw\<close> stay.
\<close>

type_synonym 'st outcome = "js_error option \<times> 'st"

subsection \<open>\<open>Date.prototype.toISOString\<close>\<close>

text \<open>
  The built-in renders a time value as \<open>YYYY-MM-DDTHH:mm:ss.sssZ\<close> in UTC, with the
  expanded year \<open>\<plusminus>YYYYYY\<close> outside the years 0 to 9999. The date of a day number is
  computed with the usual era arithmetic of the proleptic Gregorian calendar.
\<close>

definition digitChar :: "int \<Rightarrow> char" where
  "digitChar d = ''0123456789'' ! nat (d mod 10)"

fun padDigits :: "nat \<Rightarrow> int \<Rightarrow> string" where
  "padDigits 0 k = []"
| "padDigits (Suc w) k = padDigits w (k div 10) @ [digitChar (k mod 10)]"

definition civilFromDays :: "int \<Rightarrow> int \<times> int \<times> int" where
  "civilFromDays days =
     (let z = days + 719468;
          era = z div 146097;
          doe = z mod 146097;
          yoe = (doe - doe div 1460 + doe div 36524 - doe div 146096) div 365;
          doy = doe - (365 * yoe + yoe div 4 - yoe div 100);
          mp = (5 * doy + 2) div 153;
          d = doy - (153 * mp + 2) div 5 + 1;
          m = (if mp < 10 then mp + 3 else mp - 9);
          y = yoe + era * 400 + (if m \<le> 2 then 1 else 0)
      in (y, m, d))"

definition yearString :: "int \<Rightarrow> string" where
  "yearString y =
     (if 0 \<le> y \<and> y \<le> 9999 then padDigits 4 y
      else (if y < 0 then ''-'' else ''+'') @ padDigits 6 \<bar>y\<bar>)"

fun dateString :: "int \<times> int \<times> int \<Rightarrow> string" where
  "dateString (y, m, d) = yearString y @ ''-'' @ padDigits 2 m @ ''-'' @ padDigits 2 d"

definition timeString :: "int \<Rightarrow> string" where
  "timeString ms =
     padDigits 2 (ms div 3600000) @ '':''
     @ padDigits 2 (ms div 60000 mod 60) @ '':''
     @ padDigits 2 (ms div 1000 mod 60) @ ''.''
     @ padDigits 3 (ms mod 1000)"

definition toISOString :: "date \<Rightarrow> string" where
  "toISOString t =
     dateString (civilFromDays (t div 86400000)) @ ''T''
     @ timeString (t mod 86400000) @ ''Z''"

subsection \<open>\<open>path.join\<close> (POSIX)\<close>

text \<open>
  \<open>path.join\<close> concatenates its non-empty arguments with \<open>/\<close> and normalises the
  result textually: empty segments and \<open>.\<close> are dropped, and \<open>..\<close> removes the segment
  before it (at the root of an absolute path it is dropped, at the start of a relative
  path it is kept).
\<close>

fun splitSlash :: "string \<Rightarrow> string list" where
  "splitSlash [] = [[]]"
| "splitSlash (c # cs) =
     (if c = CHR ''/'' then [] # splitSlash cs
      else (case splitSlash cs of [] \<Rightarrow> [[c]] | seg # segs \<Rightarrow> (c # seg) # segs))"

fun joinSlash :: "string list \<Rightarrow> string" where
  "joinSlash [] = []"
| "joinSlash [seg] = seg"
| "joinSlash (seg # segs) = seg @ ''/'' @ joinSlash segs"

text \<open>
  The segments kept so far are held newest first in \<open>acc\<close>.
\<close>

fun normalizeSegments :: "bool \<Rightarrow> string list \<Rightarrow> string list \<Rightarrow> string list" where
  "normalizeSegments allowAboveRoot acc [] = rev acc"
| "normalizeSegments allowAboveRoot acc (seg # segs) =
     (if seg = [] \<or> seg = ''.'' then normalizeSegments allowAboveRoot acc segs
      else if seg = ''..'' then
        (case acc of
           [] \<Rightarrow> normalizeSegments allowAboveRoot
                   (if allowAboveRoot then [''..''] else []) segs
         | prev # below \<Rightarrow>
             if prev = ''..'' then normalizeSegments allowAboveRoot (seg # acc) segs
             else normalizeSegments allowAboveRoot below segs)
      else normalizeSegments allowAboveRoot (seg # acc) segs)"

definition normalizePath :: "string \<Rightarrow> string" where
  "normalizePath p =
     (if p = [] then ''.''
      else
        (let isAbsolute = (hd p = CHR ''/'');
             trailingSeparator = (last p = CHR ''/'');
             body = joinSlash (normalizeSegments (\<not> isAbsolute) [] (splitSlash p))
         in if body = [] then
              (if isAbsolute then ''/'' else if trailingSeparator then ''./'' else ''.'')
            else (if isAbsolute then ''/'' else []) @ body
                 @ (if trailingSeparator then ''/'' else [])))"

definition pathJoin :: "string list \<Rightarrow> string" where
  "pathJoin args =
     (case filter (\<lambda>a. a \<noteq> []) args of
        [] \<Rightarrow> ''.''
      | parts \<Rightarrow> normalizePath (joinSlash parts))"

section \<open>Snapshot helpers\<close>

text \<open>The working directory of the process is a parameter, \<open>cwd\<close>.\<close>

definition SNAPSHOTS_DIR :: "string \<Rightarrow> string" where
  "SNAPSHOTS_DIR cwd = pathJoin [cwd, ''snapshots'']"

text \<open>\<open>!mime\<close> holds for \<open>undefined\<close> and for the empty string.\<close>

definition extFromMime :: "string option \<Rightarrow> string" where
  "extFromMime mime =
     (case mime of
        None \<Rightarrow> ''.bin''
      | Some m \<Rightarrow>
          if m = [] then ''.bin''
          else if m = ''image/jpeg'' \<or> m = ''image/jpg'' then ''.jpg''
          else if m = ''image/png'' then ''.png''
          else if m = ''image/webp'' then ''.webp''
          else if m = ''image/gif'' then ''.gif''
          else if m = ''image/bmp'' then ''.bmp''
          else if m = ''image/tiff'' then ''.tiff''
          else ''.bin'')"

definition safeTimestamp :: "date \<Rightarrow> string" where
  "safeTimestamp d = map (\<lambda>c. if c = CHR '':'' then CHR ''-'' else c) (toISOString d)"

section \<open>Photo records and the state of the application\<close>

text \<open>
  \<open>PhotoData\<close> is the SDK's record of a captured photo; the fields the program reads
  are kept. The program guards \<open>requestId\<close> and \<open>timestamp\<close> with \<open>??\<close> and passes
  \<open>mimeType\<close> to a parameter of type \<open>string | undefined\<close>, so the three are options.
  \<open>StoredPhoto\<close> receives them unchanged.
\<close>

record PhotoData =
  pd_requestId :: "string option"
  pd_buffer :: buffer
  pd_timestamp :: "date option"
  pd_mimeType :: "string option"
  pd_size :: int

record StoredPhoto =
  requestId :: "string option"
  buffer :: buffer
  timestamp :: "date option"
  userId :: string
  mimeType :: "string option"
  filename :: string
  photoSize :: int

text \<open>What the program reads of a session object.\<close>

record AppSession =
  sessionId :: "string option"
  sessionUserId :: "string option"
  sessionUser_id :: "string option"

text \<open>One call of \<open>bucket.upload\<close> that the object store accepted.\<close>

record upload =
  up_filePath :: string
  up_destination :: string
  up_contentType :: "string option"
  up_userId :: string
  up_requestId :: "string option"
  up_timestamp :: string

datatype log_entry = LogError string | LogWarn string

text \<open>
  The five maps are the private fields of \<open>ExampleMentraOSApp\<close>. The other fields
  record what the program did to the outside world: the files written (newest
  first), the uploads the store accepted, the \<open>logger.error\<close> and \<open>logger.warn\<close>
  lines, the number of \<open>camera.requestPhoto\<close> calls, and the timers registered with
  \<open>setInterval\<close> (the user the callback belongs to, and the period in milliseconds).
  \<open>logger.info\<close> lines and the text shown on the glasses are not part of the model.
\<close>

record app =
  photos :: "string \<rightharpoonup> StoredPhoto list"
  latestPhotoTimestamp :: "string \<rightharpoonup> int"
  isStreamingPhotos :: "string \<rightharpoonup> bool"
  nextPhotoTime :: "string \<rightharpoonup> int"
  sessionMap :: "string \<rightharpoonup> AppSession"
  disk :: "(string \<times> buffer) list"
  bucket :: "upload list"
  logged :: "log_entry list"
  cameraRequests :: nat
  timers :: "(string \<times> nat) list"

definition initialApp :: app where
  "initialApp =
     \<lparr> photos = Map.empty, latestPhotoTimestamp = Map.empty,
       isStreamingPhotos = Map.empty, nextPhotoTime = Map.empty,
       sessionMap = Map.empty, disk = [], bucket = [], logged = [],
       cameraRequests = 0, timers = [] \<rparr>"

definition logError :: "string \<Rightarrow> app \<Rightarrow> app" where
  "logError msg s = s\<lparr>logged := LogError msg # logged s\<rparr>"

definition logWarn :: "string \<Rightarrow> app \<Rightarrow> app" where
  "logWarn msg s = s\<lparr>logged := LogWarn msg # logged s\<rparr>"

text \<open>\<open>this.photos.get(userId) ?? []\<close>\<close>

definition photoList :: "app \<Rightarrow> string \<Rightarrow> StoredPhoto list" where
  "photoList s uid = (case photos s uid of None \<Rightarrow> [] | Some list \<Rightarrow> list)"

text \<open>
  The answer of \<open>fs.mkdir\<close> is \<open>None\<close> when the call succeeds and the error it
  rejects with otherwise; the same convention is used for every outside call below.
\<close>

definition ensureSnapshotsDirExists :: "js_error option \<Rightarrow> app \<Rightarrow> app" where
  "ensureSnapshotsDirExists mkdirAnswer s =
     (case mkdirAnswer of
        None \<Rightarrow> s
      | Some e \<Rightarrow> logWarn (''Could not create snapshots directory: '' @ errorString e) s)"

section \<open>Caching and uploading photos\<close>

definition typeErrorReading :: "string \<Rightarrow> js_error" where
  "typeErrorReading prop =
     JsError ''TypeError''
       (''Cannot read properties of undefined (reading '' @ [CHR 0x27] @ prop @ [CHR 0x27] @ '')'')"

text \<open>
  \<open>uploadToFirebase\<close>. The identifier \<open>bucket\<close> is used but not declared in the source
  file, so the object store is a parameter: \<open>storeAnswer\<close> is what evaluating
  \<open>bucket.upload(...)\<close> gives. Everything happens inside the \<open>try\<close>, also the
  \<open>toISOString\<close> call on the timestamp.
\<close>

definition uploadToFirebase :: "string \<Rightarrow> js_error option \<Rightarrow> StoredPhoto \<Rightarrow> app \<Rightarrow> app" where
  "uploadToFirebase cwd storeAnswer cachedPhoto s =
     (let filePath = pathJoin [SNAPSHOTS_DIR cwd, filename cachedPhoto];
          destination = ''sessions/'' @ userId cachedPhoto @ ''/images/'' @ filename cachedPhoto;
          failed = (\<lambda>err. logError (''Firebase upload failed for '' @ filename cachedPhoto
                                    @ '': '' @ errorString err) s)
      in case timestamp cachedPhoto of
           None \<Rightarrow> failed (typeErrorReading ''toISOString'')
         | Some t \<Rightarrow>
             (case storeAnswer of
                Some err \<Rightarrow> failed err
              | None \<Rightarrow>
                  s\<lparr>bucket :=
                      \<lparr> up_filePath = filePath, up_destination = destination,
                        up_contentType = mimeType cachedPhoto,
                        up_userId = userId cachedPhoto,
                        up_requestId = requestId cachedPhoto,
                        up_timestamp = toISOString t \<rparr> # bucket s\<rparr>))"

text \<open>
  The generated file name, as \<open>cachePhoto\<close> and \<open>savePhotoOnly\<close> both build it.
  \<open>now\<close> is the value of \<open>new Date()\<close>.
\<close>

definition photoBaseName :: "date \<Rightarrow> PhotoData \<Rightarrow> string" where
  "photoBaseName now photo =
     (let ext = extFromMime (pd_mimeType photo);
          ts = safeTimestamp (case pd_timestamp photo of None \<Rightarrow> now | Some d \<Rightarrow> d)
      in ''photo_'' @ ts @ ''_''
         @ (case pd_requestId photo of None \<Rightarrow> ''unknown'' | Some r \<Rightarrow> r) @ ext)"

definition storedPhotoOf :: "PhotoData \<Rightarrow> string \<Rightarrow> string \<Rightarrow> StoredPhoto" where
  "storedPhotoOf photo uid baseName =
     \<lparr> requestId = pd_requestId photo, buffer = pd_buffer photo,
       timestamp = pd_timestamp photo, userId = uid,
       mimeType = pd_mimeType photo, filename = baseName,
       photoSize = pd_size photo \<rparr>"

text \<open>
  The in-memory update of \<open>src/index.ts\<close> (the statements from \<open>this.photos.get\<close> to
  \<open>this.latestPhotoTimestamp.set\<close>, the same in \<open>cachePhoto\<close> and \<open>savePhotoOnly\<close>).
  \<open>getTime\<close> on a missing timestamp throws after the list has been stored.
\<close>

definition cacheInMemory :: "StoredPhoto \<Rightarrow> string \<Rightarrow> app \<Rightarrow> app outcome" where
  "cacheInMemory cachedPhoto uid s =
     (let list0 = (case photos s uid of None \<Rightarrow> [] | Some l \<Rightarrow> l);
          list1 = cachedPhoto # list0;
          list2 = (if length list1 > 50 then take 50 list1 else list1);
          s1 = s\<lparr>photos := (photos s)(uid \<mapsto> list2)\<rparr>
      in case timestamp cachedPhoto of
           None \<Rightarrow> (Some (typeErrorReading ''getTime''), s1)
         | Some t \<Rightarrow>
             (None, s1\<lparr>latestPhotoTimestamp := (latestPhotoTimestamp s1)(uid \<mapsto> t)\<rparr>))"

text \<open>The answers of the outside world to one call of \<open>savePhotoOnly\<close>.\<close>

record save_answers =
  sa_now :: date
  sa_write :: "js_error option"
  sa_upload :: "js_error option"

definition savePhotoOnly :: "string \<Rightarrow> save_answers \<Rightarrow> PhotoData \<Rightarrow> string \<Rightarrow> app \<Rightarrow> app outcome" where
  "savePhotoOnly cwd env photo uid s =
     (let baseName = photoBaseName (sa_now env) photo;
          fullPath = pathJoin [SNAPSHOTS_DIR cwd, baseName]
      in case sa_write env of
           Some e \<Rightarrow>
             (None, logError (''Failed to save follow-up photo to file: '' @ errorString e) s)
         | None \<Rightarrow>
             (let s1 = s\<lparr>disk := (fullPath, pd_buffer photo) # disk s\<rparr>;
                  cachedPhoto = storedPhotoOf photo uid baseName
              in case cacheInMemory cachedPhoto uid s1 of
                   (Some e, s2) \<Rightarrow> (Some e, s2)
                 | (None, s2) \<Rightarrow>
                     (None, uploadToFirebase cwd (sa_upload env) cachedPhoto s2)))"

text \<open>
  The answers to one call of \<open>cachePhoto\<close>: the clock, the file write, the camera
  asked for the follow-up photo (\<open>Inl\<close> when it rejects), the answers to the
  \<open>savePhotoOnly\<close> call for that photo, and the object store.
\<close>

record cache_answers =
  ca_now :: date
  ca_write :: "js_error option"
  ca_camera :: "js_error + PhotoData"
  ca_followUp :: save_answers
  ca_upload :: "js_error option"

definition followUpPhoto :: "string \<Rightarrow> cache_answers \<Rightarrow> string \<Rightarrow> app \<Rightarrow> app" where
  "followUpPhoto cwd env uid s =
     (let s1 = s\<lparr>cameraRequests := Suc (cameraRequests s)\<rparr>
      in case ca_camera env of
           Inl e \<Rightarrow> logError (''Error taking follow-up photo: '' @ errorString e) s1
         | Inr nextPhoto \<Rightarrow>
             (case savePhotoOnly cwd (ca_followUp env) nextPhoto uid s1 of
                (Some e, s2) \<Rightarrow>
                  logError (''Error taking follow-up photo: '' @ errorString e) s2
              | (None, s2) \<Rightarrow> s2))"

text \<open>
  The \<open>try\<close> block of \<open>cachePhoto\<close>: the file write and, when it succeeded and a
  session was passed, the follow-up photo.
\<close>

definition saveAndFollowUp ::
  "string \<Rightarrow> cache_answers \<Rightarrow> PhotoData \<Rightarrow> string \<Rightarrow> AppSession option \<Rightarrow> app \<Rightarrow> app" where
  "saveAndFollowUp cwd env photo uid session s =
     (let baseName = photoBaseName (ca_now env) photo;
          fullPath = pathJoin [SNAPSHOTS_DIR cwd, baseName]
      in case ca_write env of
           Some e \<Rightarrow> logError (''Failed to save photo to file: '' @ errorString e) s
         | None \<Rightarrow>
             (let s0 = s\<lparr>disk := (fullPath, pd_buffer photo) # disk s\<rparr>
              in case session of
                   None \<Rightarrow> s0
                 | Some _ \<Rightarrow> followUpPhoto cwd env uid s0))"

definition cachePhoto ::
  "string \<Rightarrow> cache_answers \<Rightarrow> PhotoData \<Rightarrow> string \<Rightarrow> AppSession option \<Rightarrow> app \<Rightarrow> app outcome" where
  "cachePhoto cwd env photo uid session s =
     (let baseName = photoBaseName (ca_now env) photo;
          s1 = saveAndFollowUp cwd env photo uid session s;
          cachedPhoto = storedPhotoOf photo uid baseName
      in case cacheInMemory cachedPhoto uid s1 of
           (Some e, s2) \<Rightarrow> (Some e, s2)
         | (None, s2) \<Rightarrow> (None, uploadToFirebase cwd (ca_upload env) cachedPhoto s2))"

subsection \<open>The earlier version of the file\<close>

text \<open>
  The second source file is an earlier version of \<open>index.ts\<close>: its \<open>cachePhoto\<close> takes
  no session, takes no follow-up photo and uploads nothing. The class has no
  \<open>sessionMap\<close>; the model leaves that field of the state alone.
\<close>

definition cacheInMemory_part_000 :: "StoredPhoto \<Rightarrow> string \<Rightarrow> app \<Rightarrow> app outcome" where
  "cacheInMemory_part_000 cachedPhoto uid s =
     (let list0 = (case photos s uid of None \<Rightarrow> [] | Some l \<Rightarrow> l);
          list1 = cachedPhoto # list0;
          list2 = (if length list1 > 50 then take 50 list1 else list1);
          s1 = s\<lparr>photos := (photos s)(uid \<mapsto> list2)\<rparr>
      in case timestamp cachedPhoto of
           None \<Rightarrow> (Some (typeErrorReading ''getTime''), s1)
         | Some t \<Rightarrow>
             (None, s1\<lparr>latestPhotoTimestamp := (latestPhotoTimestamp s1)(uid \<mapsto> t)\<rparr>))"

definition cachePhoto_part_000 ::
  "string \<Rightarrow> date \<Rightarrow> js_error option \<Rightarrow> PhotoData \<Rightarrow> string \<Rightarrow> app \<Rightarrow> app outcome" where
  "cachePhoto_part_000 cwd now writeAnswer photo uid s =
     (let baseName = photoBaseName now photo;
          fullPath = pathJoin [SNAPSHOTS_DIR cwd, baseName];
          s1 = (case writeAnswer of
                  Some e \<Rightarrow> logError (''Failed to save photo to file: '' @ errorString e) s
                | None \<Rightarrow> s\<lparr>disk := (fullPath, pd_buffer photo) # disk s\<rparr>);
          cachedPhoto = storedPhotoOf photo uid baseName
      in cacheInMemory_part_000 cachedPhoto uid s1)"

section \<open>Sessions, the button and the auto-capture timer\<close>

definition userIdOfSession :: "AppSession \<Rightarrow> string" where
  "userIdOfSession session =
     (case sessionUserId session of
        Some u \<Rightarrow> u
      | None \<Rightarrow> (case sessionUser_id session of Some u \<Rightarrow> u | None \<Rightarrow> ''unknown''))"

definition autoStreamPeriodMs :: nat where
  "autoStreamPeriodMs = 1000"

text \<open>
  \<open>onSession\<close> initialises the user's entries and registers the button listener and
  the timer. \<open>now\<close> is the value of \<open>Date.now()\<close>.
\<close>

definition onSession :: "date \<Rightarrow> AppSession \<Rightarrow> app \<Rightarrow> app" where
  "onSession now session s =
     (let uid = userIdOfSession session
      in s\<lparr> isStreamingPhotos := (isStreamingPhotos s)(uid \<mapsto> False),
            nextPhotoTime := (nextPhotoTime s)(uid \<mapsto> now),
            sessionMap := (sessionMap s)(uid \<mapsto> session),
            timers := (uid, autoStreamPeriodMs) # timers s \<rparr>)"

definition onStop :: "app \<Rightarrow> app" where
  "onStop s =
     s\<lparr> isStreamingPhotos := Map.empty, nextPhotoTime := Map.empty,
         sessionMap := Map.empty \<rparr>"

record ButtonPress =
  buttonId :: string
  pressType :: string

record press_answers =
  pa_camera :: "js_error + PhotoData"
  pa_cache :: cache_answers

text \<open>
  The button listener of a session; \<open>uid\<close> and \<open>session\<close> are the variables its
  closure holds. \<open>!this.isStreamingPhotos.get(userId)\<close> is false only when the entry
  is \<open>true\<close>.
\<close>

definition onButtonPress ::
  "string \<Rightarrow> press_answers \<Rightarrow> string \<Rightarrow> AppSession \<Rightarrow> ButtonPress \<Rightarrow> app \<Rightarrow> app outcome" where
  "onButtonPress cwd env uid session button s =
     (if pressType button = ''long'' then
        (None, s\<lparr>isStreamingPhotos :=
                   (isStreamingPhotos s)(uid \<mapsto> isStreamingPhotos s uid \<noteq> Some True)\<rparr>)
      else
        (let s1 = s\<lparr>cameraRequests := Suc (cameraRequests s)\<rparr>
         in case pa_camera env of
              Inl e \<Rightarrow> (None, logError (''Error taking photo: '' @ errorString e) s1)
            | Inr photo \<Rightarrow>
                (case cachePhoto cwd (pa_cache env) photo uid (Some session) s1 of
                   (Some e, s2) \<Rightarrow>
                     (None, logError (''Error taking photo: '' @ errorString e) s2)
                 | (None, s2) \<Rightarrow> (None, s2))))"

text \<open>
  One firing of the timer. The three clock readings are those of the three
  \<open>Date.now()\<close> calls, in the order of the source. The work the callback awaits is
  part of the same step.
\<close>

record tick_answers =
  ta_nowCheck :: date
  ta_nowSet :: date
  ta_camera :: "js_error + PhotoData"
  ta_nowAfter :: date
  ta_cache :: cache_answers

definition autoStreamTick ::
  "string \<Rightarrow> tick_answers \<Rightarrow> string \<Rightarrow> AppSession \<Rightarrow> app \<Rightarrow> app outcome" where
  "autoStreamTick cwd env uid session s =
     (if isStreamingPhotos s uid = Some True
         \<and> ta_nowCheck env > (case nextPhotoTime s uid of None \<Rightarrow> 0 | Some t \<Rightarrow> t)
      then
        (let s1 = s\<lparr> nextPhotoTime := (nextPhotoTime s)(uid \<mapsto> ta_nowSet env + 30000),
                      cameraRequests := Suc (cameraRequests s) \<rparr>
         in case ta_camera env of
              Inl e \<Rightarrow> (None, logError (''Error auto-taking photo: '' @ errorString e) s1)
            | Inr photo \<Rightarrow>
                (let s2 = s1\<lparr>nextPhotoTime := (nextPhotoTime s1)(uid \<mapsto> ta_nowAfter env)\<rparr>
                 in case cachePhoto cwd (ta_cache env) photo uid (Some session) s2 of
                      (Some e, s3) \<Rightarrow>
                        (None, logError (''Error auto-taking photo: '' @ errorString e) s3)
                    | (None, s3) \<Rightarrow> (None, s3)))
      else (None, s))"

subsection \<open>Runs of the application\<close>

text \<open>
  Everything that can happen to the application, with the answers of the outside
  world. The two private methods are events of their own, so that a run can be any
  sequence of their calls.
\<close>

datatype event =
    DirEnsured "js_error option"
  | SessionStarted date AppSession
  | ButtonPressed AppSession ButtonPress press_answers
  | TimerFired AppSession tick_answers
  | Stopped
  | CachePhotoCalled PhotoData string "AppSession option" cache_answers
  | SavePhotoOnlyCalled PhotoData string save_answers

fun step :: "string \<Rightarrow> app \<Rightarrow> event \<Rightarrow> app" where
  "step cwd s (DirEnsured mkdirAnswer) = ensureSnapshotsDirExists mkdirAnswer s"
| "step cwd s (SessionStarted now session) = onSession now session s"
| "step cwd s (ButtonPressed session button env) =
     snd (onButtonPress cwd env (userIdOfSession session) session button s)"
| "step cwd s (TimerFired session env) =
     snd (autoStreamTick cwd env (userIdOfSession session) session s)"
| "step cwd s Stopped = onStop s"
| "step cwd s (CachePhotoCalled photo uid session env) =
     snd (cachePhoto cwd env photo uid session s)"
| "step cwd s (SavePhotoOnlyCalled photo uid env) =
     snd (savePhotoOnly cwd env photo uid s)"

definition run :: "string \<Rightarrow> event list \<Rightarrow> app" where
  "run cwd events = foldl (step cwd) initialApp events"

section \<open>The web routes\<close>

record photo_meta =
  pm_requestId :: "string option"
  pm_timestamp :: int
  pm_filename :: string
  pm_size :: int
  pm_mimeType :: "string option"

datatype body =
    JsonError string
  | JsonLatest "string option" int
  | JsonPhotos "photo_meta list"
  | Binary buffer
  | Html string
  | RedirectNotice string

text \<open>
  A response: the status (200 unless the handler sets one), the headers the handler
  sets, with the values it passes, and the body.
\<close>

record response =
  status :: nat
  headers :: "(string \<times> string option) list"
  body :: body

definition notAuthenticated :: response where
  "notAuthenticated = \<lparr> status = 401, headers = [], body = JsonError ''Not authenticated'' \<rparr>"

text \<open>\<open>!userId\<close> holds for \<open>undefined\<close> and for the empty string.\<close>

definition authenticatedUser :: "string option \<Rightarrow> string option" where
  "authenticatedUser authUserId =
     (case authUserId of None \<Rightarrow> None | Some u \<Rightarrow> if u = [] then None else Some u)"

text \<open>A handler that throws gives \<open>Inl\<close>.\<close>

definition latestPhotoRoute :: "string option \<Rightarrow> app \<Rightarrow> js_error + response" where
  "latestPhotoRoute authUserId s =
     (case authenticatedUser authUserId of
        None \<Rightarrow> Inr notAuthenticated
      | Some uid \<Rightarrow>
          (case photoList s uid of
             [] \<Rightarrow> Inr \<lparr> status = 404, headers = [], body = JsonError ''No photo available'' \<rparr>
           | photo # _ \<Rightarrow>
               (case timestamp photo of
                  None \<Rightarrow> Inl (typeErrorReading ''getTime'')
                | Some t \<Rightarrow>
                    Inr \<lparr> status = 200, headers = [],
                          body = JsonLatest (requestId photo) t \<rparr>)))"

fun photoMetas :: "StoredPhoto list \<Rightarrow> js_error + photo_meta list" where
  "photoMetas [] = Inr []"
| "photoMetas (p # ps) =
     (case timestamp p of
        None \<Rightarrow> Inl (typeErrorReading ''getTime'')
      | Some t \<Rightarrow>
          (case photoMetas ps of
             Inl e \<Rightarrow> Inl e
           | Inr ms \<Rightarrow>
               Inr (\<lparr> pm_requestId = requestId p, pm_timestamp = t,
                      pm_filename = filename p, pm_size = photoSize p,
                      pm_mimeType = mimeType p \<rparr> # ms)))"

definition photosRoute :: "string option \<Rightarrow> app \<Rightarrow> js_error + response" where
  "photosRoute authUserId s =
     (case authenticatedUser authUserId of
        None \<Rightarrow> Inr notAuthenticated
      | Some uid \<Rightarrow>
          (case photoMetas (photoList s uid) of
             Inl e \<Rightarrow> Inl e
           | Inr ms \<Rightarrow> Inr \<lparr> status = 200, headers = [], body = JsonPhotos ms \<rparr>))"

definition photoRoute :: "string option \<Rightarrow> string \<Rightarrow> app \<Rightarrow> js_error + response" where
  "photoRoute authUserId requestIdParam s =
     (case authenticatedUser authUserId of
        None \<Rightarrow> Inr notAuthenticated
      | Some uid \<Rightarrow>
          (case find (\<lambda>p. requestId p = Some requestIdParam) (photoList s uid) of
             None \<Rightarrow> Inr \<lparr> status = 404, headers = [], body = JsonError ''Photo not found'' \<rparr>
           | Some photo \<Rightarrow>
               Inr \<lparr> status = 200,
                     headers = [(''Content-Type'', mimeType photo),
                                (''Cache-Control'', Some ''no-cache'')],
                     body = Binary (buffer photo) \<rparr>))"

text \<open>
  \<open>rendered\<close> is the answer of \<open>ejs.renderFile\<close>; the handler does not catch its
  rejection.
\<close>

definition notAuthenticatedPage :: response where
  "notAuthenticatedPage =
     \<lparr> status = 401, headers = [],
       body = Html ''<html><head><title>Not Authenticated</title></head><body><h1>Please open from MentraOS app</h1></body></html>'' \<rparr>"

definition webviewRoute :: "string option \<Rightarrow> js_error + string \<Rightarrow> js_error + response" where
  "webviewRoute authUserId rendered =
     (case authenticatedUser authUserId of
        None \<Rightarrow> Inr notAuthenticatedPage
      | Some uid \<Rightarrow>
          (case rendered of
             Inl e \<Rightarrow> Inl e
           | Inr html \<Rightarrow> Inr \<lparr> status = 200, headers = [], body = Html html \<rparr>))"

text \<open>\<open>res.redirect\<close> answers 302 with a \<open>Location\<close> header and a short notice.\<close>

definition rootRoute :: "js_error + response" where
  "rootRoute =
     Inr \<lparr> status = 302, headers = [(''Location'', Some ''/webview'')],
           body = RedirectNotice ''/webview'' \<rparr>"

datatype route = LatestPhoto | Photos | Photo string | Webview | Root

text \<open>A GET request: the route, the \<open>authUserId\<close> the host framework attached, if any.\<close>

fun handleGet :: "route \<Rightarrow> string option \<Rightarrow> js_error + string \<Rightarrow> app \<Rightarrow> js_error + response" where
  "handleGet LatestPhoto authUserId rendered s = latestPhotoRoute authUserId s"
| "handleGet Photos authUserId rendered s = photosRoute authUserId s"
| "handleGet (Photo requestIdParam) authUserId rendered s =
     photoRoute authUserId requestIdParam s"
| "handleGet Webview authUserId rendered s = webviewRoute authUserId rendered"
| "handleGet Root authUserId rendered s = rootRoute"

fun carriesPhotoData :: "body \<Rightarrow> bool" where
  "carriesPhotoData (JsonLatest _ _) = True"
| "carriesPhotoData (JsonPhotos _) = True"
| "carriesPhotoData (Binary _) = True"
| "carriesPhotoData _ = False"

definition statusOf :: "js_error + response \<Rightarrow> nat option" where
  "statusOf r = (case r of Inl _ \<Rightarrow> None | Inr resp \<Rightarrow> Some (status resp))"

definition servesPhotoData :: "js_error + response \<Rightarrow> bool" where
  "servesPhotoData r = (case r of Inl _ \<Rightarrow> False | Inr resp \<Rightarrow> carriesPhotoData (body resp))"

section \<open>Predicates of the statements\<close>

subsection \<open>Properties of every user's list\<close>

text \<open>\<open>photosInv P s\<close>: in the state \<open>s\<close> the list of every user \<open>uid\<close> has the property \<open>P uid\<close>.\<close>

definition photosInv :: "(string \<Rightarrow> StoredPhoto list \<Rightarrow> bool) \<Rightarrow> app \<Rightarrow> bool" where
  "photosInv P s \<longleftrightarrow> (\<forall>uid. P uid (photoList s uid))"

subsection \<open>The keys of the object store\<close>

text \<open>
  An accepted upload is keyed by user and file when its key is
  \<open>sessions/<userId>/images/<name>\<close> for the user it names in its metadata and the
  file \<open><name>\<close> of the snapshots directory it was read from.
\<close>

definition keyedByUserAndFile :: "string \<Rightarrow> upload \<Rightarrow> bool" where
  "keyedByUserAndFile cwd up \<longleftrightarrow>
     (\<exists>name. up_destination up = ''sessions/'' @ up_userId up @ ''/images/'' @ name
           \<and> up_filePath up = pathJoin [SNAPSHOTS_DIR cwd, name])"

definition bucketKeyed :: "string \<Rightarrow> app \<Rightarrow> bool" where
  "bucketKeyed cwd s \<longleftrightarrow> (\<forall>up\<in>set (bucket s). keyedByUserAndFile cwd up)"

subsection \<open>Plain file names and normalised paths\<close>

text \<open>
  A plain segment is a file name: not empty, not \<open>.\<close> or \<open>..\<close>, and without a
  separator. A list of kept segments, newest first, is normalised when a \<open>..\<close> has only
  \<open>..\<close> before it, and none at all in an absolute path.
\<close>

definition plainSegment :: "string \<Rightarrow> bool" where
  "plainSegment seg \<longleftrightarrow> seg \<noteq> [] \<and> seg \<noteq> ''.'' \<and> seg \<noteq> ''..'' \<and> CHR ''/'' \<notin> set seg"

fun normalAcc :: "bool \<Rightarrow> string list \<Rightarrow> bool" where
  "normalAcc allowAboveRoot [] = True"
| "normalAcc allowAboveRoot (seg # older) =
     (if seg = ''..'' then allowAboveRoot \<and> list_all (\<lambda>s. s = ''..'') older
      else plainSegment seg \<and> normalAcc allowAboveRoot older)"

text \<open>
  A normalised directory path: an optional leading separator and at least one kept
  segment, no separator at the end.
\<close>

definition normalDir :: "string \<Rightarrow> bool" where
  "normalDir d \<longleftrightarrow>
     (\<exists>isAbsolute segs. segs \<noteq> [] \<and> normalAcc (\<not> isAbsolute) (rev segs)
        \<and> d = (if isAbsolute then ''/'' else []) @ joinSlash segs)"

section \<open>Example values\<close>

definition examplePhoto1 :: PhotoData where
  "examplePhoto1 =
     \<lparr> pd_requestId = Some ''req1'', pd_buffer = [1, 2, 3], pd_timestamp = Some 0,
       pd_mimeType = Some ''image/jpeg'', pd_size = 3 \<rparr>"

definition examplePhoto2 :: PhotoData where
  "examplePhoto2 =
     \<lparr> pd_requestId = Some ''req2'', pd_buffer = [4], pd_timestamp = Some 1700000000000,
       pd_mimeType = Some ''image/png'', pd_size = 1 \<rparr>"

definition escapingPhoto :: PhotoData where
  "escapingPhoto =
     \<lparr> pd_requestId = Some ''/../../evil'', pd_buffer = [1, 2, 3], pd_timestamp = Some 0,
       pd_mimeType = Some ''image/jpeg'', pd_size = 3 \<rparr>"

definition exampleStored :: StoredPhoto where
  "exampleStored = storedPhotoOf examplePhoto1 ''u1'' (photoBaseName 5 examplePhoto1)"

definition exampleSession :: AppSession where
  "exampleSession =
     \<lparr> sessionId = Some ''s1'', sessionUserId = Some ''u1'', sessionUser_id = None \<rparr>"

definition diskFull :: js_error where
  "diskFull = JsError ''Error'' ''ENOSPC: no space left on device, write''"

definition cameraTimeout :: js_error where
  "cameraTimeout = JsError ''Error'' ''Photo request timed out''"

definition bucketMissing :: js_error where
  "bucketMissing = JsError ''ReferenceError'' ''bucket is not defined''"

definition saveOk :: save_answers where
  "saveOk = \<lparr> sa_now = 5, sa_write = None, sa_upload = None \<rparr>"

definition saveWriteFails :: save_answers where
  "saveWriteFails = \<lparr> sa_now = 5, sa_write = Some diskFull, sa_upload = None \<rparr>"

definition cacheOk :: cache_answers where
  "cacheOk =
     \<lparr> ca_now = 5, ca_write = None, ca_camera = Inr examplePhoto2,
       ca_followUp = saveOk, ca_upload = None \<rparr>"

definition cacheWriteFails :: cache_answers where
  "cacheWriteFails =
     \<lparr> ca_now = 5, ca_write = Some diskFull, ca_camera = Inr examplePhoto2,
       ca_followUp = saveOk, ca_upload = None \<rparr>"

definition cacheAllFail :: cache_answers where
  "cacheAllFail =
     \<lparr> ca_now = 5, ca_write = Some diskFull, ca_camera = Inl cameraTimeout,
       ca_followUp = saveWriteFails, ca_upload = Some bucketMissing \<rparr>"

definition longPress :: ButtonPress where
  "longPress = \<lparr> buttonId = ''camera'', pressType = ''long'' \<rparr>"

definition shortPress :: ButtonPress where
  "shortPress = \<lparr> buttonId = ''camera'', pressType = ''short'' \<rparr>"

definition pressOk :: press_answers where
  "pressOk = \<lparr> pa_camera = Inr examplePhoto1, pa_cache = cacheOk \<rparr>"

definition pressCameraFails :: press_answers where
  "pressCameraFails = \<lparr> pa_camera = Inl cameraTimeout, pa_cache = cacheOk \<rparr>"

definition tickOk :: tick_answers where
  "tickOk =
     \<lparr> ta_nowCheck = 2000, ta_nowSet = 2000, ta_camera = Inr examplePhoto1,
       ta_nowAfter = 2500, ta_cache = cacheOk \<rparr>"

definition tickCameraFails :: tick_answers where
  "tickCameraFails =
     \<lparr> ta_nowCheck = 2000, ta_nowSet = 2000, ta_camera = Inl cameraTimeout,
       ta_nowAfter = 2500, ta_cache = cacheOk \<rparr>"

definition stateWithOnePhoto :: app where
  "stateWithOnePhoto = snd (savePhotoOnly ''/app'' saveOk examplePhoto2 ''u1'' initialApp)"

definition twoUserEvents :: "event list" where
  "twoUserEvents =
     [SavePhotoOnlyCalled examplePhoto2 ''u1'' saveOk,
      SavePhotoOnlyCalled examplePhoto1 ''u2'' saveOk]"

definition sessionOpened :: app where
  "sessionOpened = onSession 1000 exampleSession initialApp"

definition streamingOn :: app where
  "streamingOn = snd (onButtonPress ''/app'' pressOk ''u1'' exampleSession longPress sessionOpened)"

section \<open>The effect of each operation\<close>

subsection \<open>Exceptions passed on and exceptions caught\<close>

lemma snd_rethrow:
  "snd (case r of (Some e, s2) \<Rightarrow> (Some e, s2) | (None, s2) \<Rightarrow> (None, g s2)) =
     (case fst r of None \<Rightarrow> g (snd r) | Some e \<Rightarrow> snd r)"
  by (cases r) (simp split: option.splits)

lemma fst_rethrow:
  "fst (case r of (Some e, s2) \<Rightarrow> (Some e, s2) | (None, s2) \<Rightarrow> (None, g s2)) = fst r"
  by (cases r) (simp split: option.splits)

lemma snd_caught:
  "snd (case r of (Some e, s2) \<Rightarrow> (None, h e s2) | (None, s2) \<Rightarrow> (None, s2)) =
     (case fst r of None \<Rightarrow> snd r | Some e \<Rightarrow> h e (snd r))"
  by (cases r) (simp split: option.splits)

lemma fst_caught:
  "fst (case r of (Some e, s2) \<Rightarrow> (None, h e s2) | (None, s2) \<Rightarrow> (None, s2)) = None"
  by (cases r) (simp split: option.splits)

lemma state_caught:
  "(case r of (Some e, s2) \<Rightarrow> h e s2 | (None, s2) \<Rightarrow> s2) =
     (case fst r of None \<Rightarrow> snd r | Some e \<Rightarrow> h e (snd r))"
  by (cases r) (simp split: option.splits)

subsection \<open>Logging and uploading\<close>

lemma photos_logError [simp]: "photos (logError msg s) = photos s"
  by (simp add: logError_def)

lemma photos_logWarn [simp]: "photos (logWarn msg s) = photos s"
  by (simp add: logWarn_def)

lemma logError_frame [simp]:
  "latestPhotoTimestamp (logError msg s) = latestPhotoTimestamp s"
  "disk (logError msg s) = disk s"
  "bucket (logError msg s) = bucket s"
  "cameraRequests (logError msg s) = cameraRequests s"
  "isStreamingPhotos (logError msg s) = isStreamingPhotos s"
  "nextPhotoTime (logError msg s) = nextPhotoTime s"
  "timers (logError msg s) = timers s"
  "logged (logError msg s) = LogError msg # logged s"
  by (simp_all add: logError_def)

lemma photos_uploadToFirebase [simp]: "photos (uploadToFirebase cwd ans c s) = photos s"
  by (simp add: uploadToFirebase_def Let_def split: option.splits)

lemma uploadToFirebase_frame [simp]:
  "latestPhotoTimestamp (uploadToFirebase cwd ans c s) = latestPhotoTimestamp s"
  "disk (uploadToFirebase cwd ans c s) = disk s"
  "cameraRequests (uploadToFirebase cwd ans c s) = cameraRequests s"
  "isStreamingPhotos (uploadToFirebase cwd ans c s) = isStreamingPhotos s"
  "nextPhotoTime (uploadToFirebase cwd ans c s) = nextPhotoTime s"
  "timers (uploadToFirebase cwd ans c s) = timers s"
  by (simp_all add: uploadToFirebase_def Let_def logError_def split: option.splits)

lemma bucket_uploadToFirebase:
  "bucket (uploadToFirebase cwd ans c s) =
     (case (timestamp c, ans) of
        (Some t, None) \<Rightarrow>
          \<lparr> up_filePath = pathJoin [SNAPSHOTS_DIR cwd, filename c],
            up_destination = ''sessions/'' @ userId c @ ''/images/'' @ filename c,
            up_contentType = mimeType c, up_userId = userId c,
            up_requestId = requestId c, up_timestamp = toISOString t \<rparr> # bucket s
      | _ \<Rightarrow> bucket s)"
  by (simp add: uploadToFirebase_def Let_def split: option.splits)

lemma logged_uploadToFirebase:
  "logged (uploadToFirebase cwd ans c s) =
     (case (timestamp c, ans) of
        (Some t, None) \<Rightarrow> logged s
      | (Some t, Some err) \<Rightarrow>
          LogError (''Firebase upload failed for '' @ filename c @ '': '' @ errorString err)
            # logged s
      | (None, _) \<Rightarrow>
          LogError (''Firebase upload failed for '' @ filename c @ '': ''
                    @ errorString (typeErrorReading ''toISOString'')) # logged s)"
  by (simp add: uploadToFirebase_def Let_def split: option.splits)

lemma uploadToFirebase_rejected:
  "uploadToFirebase cwd (Some e) c s =
     logError (''Firebase upload failed for '' @ filename c @ '': ''
               @ errorString (case timestamp c of
                                None \<Rightarrow> typeErrorReading ''toISOString''
                              | Some t \<Rightarrow> e)) s"
  by (simp add: uploadToFirebase_def Let_def split: option.splits)

subsection \<open>The in-memory update\<close>

lemma userId_storedPhotoOf [simp]: "userId (storedPhotoOf photo uid baseName) = uid"
  by (simp add: storedPhotoOf_def)

lemma cacheInMemory_versions: "cacheInMemory_part_000 c uid s = cacheInMemory c uid s"
  by (simp add: cacheInMemory_part_000_def cacheInMemory_def)

lemma photos_cacheInMemory:
  "photos (snd (cacheInMemory c uid s)) = (photos s)(uid \<mapsto> take 50 (c # photoList s uid))"
  by (simp add: cacheInMemory_def photoList_def Let_def split: option.splits)

lemma photoList_cacheInMemory:
  "photoList (snd (cacheInMemory c uid s)) uid = take 50 (c # photoList s uid)"
  by (simp add: photoList_def photos_cacheInMemory)

lemma photoList_cacheInMemory_prior:
  "photos s uid = photos s0 uid \<Longrightarrow>
   photoList (snd (cacheInMemory c uid s)) uid = take 50 (c # photoList s0 uid)"
  by (simp add: photoList_cacheInMemory) (simp add: photoList_def)

lemma latest_cacheInMemory:
  "latestPhotoTimestamp (snd (cacheInMemory c uid s)) =
     (case timestamp c of
        None \<Rightarrow> latestPhotoTimestamp s
      | Some t \<Rightarrow> (latestPhotoTimestamp s)(uid \<mapsto> t))"
  by (simp add: cacheInMemory_def Let_def split: option.splits)

lemma fst_cacheInMemory:
  "fst (cacheInMemory c uid s) =
     (case timestamp c of None \<Rightarrow> Some (typeErrorReading ''getTime'') | Some t \<Rightarrow> None)"
  by (simp add: cacheInMemory_def Let_def split: option.splits)

lemma cameraRequests_cacheInMemory [simp]:
  "cameraRequests (snd (cacheInMemory c uid s)) = cameraRequests s"
  by (simp add: cacheInMemory_def Let_def split: option.splits)

lemma bucket_cacheInMemory [simp]: "bucket (snd (cacheInMemory c uid s)) = bucket s"
  by (simp add: cacheInMemory_def Let_def split: option.splits)

subsection \<open>savePhotoOnly\<close>

lemma photos_savePhotoOnly:
  "photos (snd (savePhotoOnly cwd env photo uid s)) =
     (case sa_write env of
        Some e \<Rightarrow> photos s
      | None \<Rightarrow>
          (photos s)(uid \<mapsto> take 50 (storedPhotoOf photo uid (photoBaseName (sa_now env) photo)
                                  # photoList s uid)))"
proof (cases "sa_write env")
  case None
  let ?s1 = "s\<lparr>disk := (pathJoin [SNAPSHOTS_DIR cwd, photoBaseName (sa_now env) photo],
                         pd_buffer photo) # disk s\<rparr>"
  let ?c = "storedPhotoOf photo uid (photoBaseName (sa_now env) photo)"
  have "photos (snd (savePhotoOnly cwd env photo uid s)) = photos (snd (cacheInMemory ?c uid ?s1))"
    using None by (simp add: savePhotoOnly_def Let_def split: prod.splits option.splits)
  also have "\<dots> = (photos ?s1)(uid \<mapsto> take 50 (?c # photoList ?s1 uid))"
    by (rule photos_cacheInMemory)
  finally show ?thesis using None by (simp add: photoList_def)
next
  case (Some e)
  then show ?thesis by (simp add: savePhotoOnly_def Let_def)
qed

lemma photoList_savePhotoOnly:
  "photoList (snd (savePhotoOnly cwd env photo uid s)) uid =
     (case sa_write env of
        Some e \<Rightarrow> photoList s uid
      | None \<Rightarrow> take 50 (storedPhotoOf photo uid (photoBaseName (sa_now env) photo)
                         # photoList s uid))"
  by (simp add: photoList_def photos_savePhotoOnly split: option.splits)

lemma fst_savePhotoOnly:
  "fst (savePhotoOnly cwd env photo uid s) =
     (case sa_write env of
        Some e \<Rightarrow> None
      | None \<Rightarrow>
          (case pd_timestamp photo of
             None \<Rightarrow> Some (typeErrorReading ''getTime'')
           | Some t \<Rightarrow> None))"
  by (simp add: savePhotoOnly_def Let_def fst_rethrow fst_cacheInMemory storedPhotoOf_def
           split: option.splits)

lemma savePhotoOnly_write_failed:
  "sa_write env = Some e \<Longrightarrow>
   savePhotoOnly cwd env photo uid s =
     (None, logError (''Failed to save follow-up photo to file: '' @ errorString e) s)"
  by (simp add: savePhotoOnly_def Let_def)

lemma cameraRequests_savePhotoOnly [simp]:
  "cameraRequests (snd (savePhotoOnly cwd env photo uid s)) = cameraRequests s"
  by (simp add: savePhotoOnly_def Let_def snd_rethrow split: option.splits)

lemma disk_savePhotoOnly:
  "disk (snd (savePhotoOnly cwd env photo uid s)) =
     (case sa_write env of
        None \<Rightarrow> [(pathJoin [SNAPSHOTS_DIR cwd, photoBaseName (sa_now env) photo], pd_buffer photo)]
      | Some e \<Rightarrow> []) @ disk s"
  by (simp add: savePhotoOnly_def Let_def snd_rethrow cacheInMemory_def split: option.splits)

lemma bucket_savePhotoOnly:
  assumes "pd_timestamp photo = Some t" and "sa_write env = None"
  shows "bucket (snd (savePhotoOnly cwd env photo uid s)) =
     (case sa_upload env of
        None \<Rightarrow>
          [\<lparr> up_filePath = pathJoin [SNAPSHOTS_DIR cwd, photoBaseName (sa_now env) photo],
             up_destination = ''sessions/'' @ uid @ ''/images/'' @ photoBaseName (sa_now env) photo,
             up_contentType = pd_mimeType photo, up_userId = uid,
             up_requestId = pd_requestId photo, up_timestamp = toISOString t \<rparr>]
      | Some err \<Rightarrow> []) @ bucket s"
proof -
  let ?c = "storedPhotoOf photo uid (photoBaseName (sa_now env) photo)"
  let ?s1 = "s\<lparr>disk := (pathJoin [SNAPSHOTS_DIR cwd, photoBaseName (sa_now env) photo],
                         pd_buffer photo) # disk s\<rparr>"
  have "fst (cacheInMemory ?c uid ?s1) = None"
    using assms by (simp add: fst_cacheInMemory storedPhotoOf_def)
  then have "snd (savePhotoOnly cwd env photo uid s) =
      uploadToFirebase cwd (sa_upload env) ?c (snd (cacheInMemory ?c uid ?s1))"
    using assms by (simp add: savePhotoOnly_def Let_def snd_rethrow)
  then show ?thesis
    using assms by (simp add: bucket_uploadToFirebase storedPhotoOf_def split: option.splits)
qed

subsection \<open>cachePhoto\<close>

lemma photos_followUpPhoto:
  "photos (followUpPhoto cwd env uid s) =
     (case ca_camera env of
        Inl e \<Rightarrow> photos s
      | Inr nextPhoto \<Rightarrow>
          photos (snd (savePhotoOnly cwd (ca_followUp env) nextPhoto uid
                         (s\<lparr>cameraRequests := Suc (cameraRequests s)\<rparr>))))"
  by (simp add: followUpPhoto_def Let_def split: sum.splits prod.splits option.splits)

lemma cameraRequests_followUpPhoto [simp]:
  "cameraRequests (followUpPhoto cwd env uid s) = Suc (cameraRequests s)"
  by (simp add: followUpPhoto_def Let_def state_caught split: sum.splits option.splits)

lemma cameraRequests_saveAndFollowUp:
  "cameraRequests (saveAndFollowUp cwd env photo uid session s) =
     (if ca_write env = None \<and> session \<noteq> None then Suc (cameraRequests s)
      else cameraRequests s)"
  by (simp add: saveAndFollowUp_def Let_def split: option.splits)

lemma photos_cachePhoto:
  "photos (snd (cachePhoto cwd env photo uid session s)) =
     (photos (saveAndFollowUp cwd env photo uid session s))
       (uid \<mapsto> take 50 (storedPhotoOf photo uid (photoBaseName (ca_now env) photo)
                           # photoList (saveAndFollowUp cwd env photo uid session s) uid))"
proof -
  let ?c = "storedPhotoOf photo uid (photoBaseName (ca_now env) photo)"
  let ?b = "saveAndFollowUp cwd env photo uid session s"
  have "photos (snd (cachePhoto cwd env photo uid session s)) = photos (snd (cacheInMemory ?c uid ?b))"
    by (simp add: cachePhoto_def Let_def split: prod.splits option.splits)
  then show ?thesis by (simp add: photos_cacheInMemory)
qed

lemma photoList_cachePhoto:
  "photoList (snd (cachePhoto cwd env photo uid session s)) uid =
     take 50 (storedPhotoOf photo uid (photoBaseName (ca_now env) photo)
              # photoList (saveAndFollowUp cwd env photo uid session s) uid)"
  by (simp add: photoList_def photos_cachePhoto)

lemma fst_cachePhoto:
  "fst (cachePhoto cwd env photo uid session s) =
     (case pd_timestamp photo of
        None \<Rightarrow> Some (typeErrorReading ''getTime'')
      | Some t \<Rightarrow> None)"
  by (simp add: cachePhoto_def Let_def fst_rethrow fst_cacheInMemory storedPhotoOf_def
           split: option.splits)

lemma cachePhoto_write_failed:
  assumes "ca_write env = Some e" and "pd_timestamp photo = Some t"
  shows "cachePhoto cwd env photo uid session s =
     (None,
      uploadToFirebase cwd (ca_upload env)
        (storedPhotoOf photo uid (photoBaseName (ca_now env) photo))
        ((logError (''Failed to save photo to file: '' @ errorString e) s)
           \<lparr> photos := (photos s)(uid \<mapsto>
                take 50 (storedPhotoOf photo uid (photoBaseName (ca_now env) photo)
                         # photoList s uid)),
             latestPhotoTimestamp := (latestPhotoTimestamp s)(uid \<mapsto> t) \<rparr>))"
  using assms
  by (simp add: cachePhoto_def saveAndFollowUp_def cacheInMemory_def Let_def
      logError_def photoList_def storedPhotoOf_def)

lemma cameraRequests_cachePhoto:
  "cameraRequests (snd (cachePhoto cwd env photo uid session s)) =
     (if ca_write env = None \<and> session \<noteq> None then Suc (cameraRequests s)
      else cameraRequests s)"
  by (simp add: cachePhoto_def Let_def snd_rethrow cameraRequests_saveAndFollowUp
           split: option.splits)

lemma disk_cachePhoto_no_session:
  "disk (snd (cachePhoto cwd env photo uid None s)) =
     (case ca_write env of
        None \<Rightarrow> [(pathJoin [SNAPSHOTS_DIR cwd, photoBaseName (ca_now env) photo], pd_buffer photo)]
      | Some e \<Rightarrow> []) @ disk s"
  by (simp add: cachePhoto_def saveAndFollowUp_def Let_def snd_rethrow cacheInMemory_def
           split: option.splits)

lemma bucket_cachePhoto:
  assumes "pd_timestamp photo = Some t"
  shows "bucket (snd (cachePhoto cwd env photo uid session s)) =
     (case ca_upload env of
        None \<Rightarrow>
          [\<lparr> up_filePath = pathJoin [SNAPSHOTS_DIR cwd, photoBaseName (ca_now env) photo],
             up_destination = ''sessions/'' @ uid @ ''/images/'' @ photoBaseName (ca_now env) photo,
             up_contentType = pd_mimeType photo, up_userId = uid,
             up_requestId = pd_requestId photo, up_timestamp = toISOString t \<rparr>]
      | Some err \<Rightarrow> []) @ bucket (saveAndFollowUp cwd env photo uid session s)"
proof -
  let ?c = "storedPhotoOf photo uid (photoBaseName (ca_now env) photo)"
  let ?s1 = "saveAndFollowUp cwd env photo uid session s"
  have "fst (cacheInMemory ?c uid ?s1) = None"
    using assms by (simp add: fst_cacheInMemory storedPhotoOf_def)
  then have "snd (cachePhoto cwd env photo uid session s) =
      uploadToFirebase cwd (ca_upload env) ?c (snd (cacheInMemory ?c uid ?s1))"
    by (simp add: cachePhoto_def Let_def snd_rethrow)
  then show ?thesis
    using assms by (simp add: bucket_uploadToFirebase storedPhotoOf_def split: option.splits)
qed

lemma cachePhoto_without_follow_up:
  "photos (snd (cachePhoto cwd env photo uid None s))
     = photos (snd (cachePhoto_part_000 cwd (ca_now env) (ca_write env) photo uid s))
   \<and> latestPhotoTimestamp (snd (cachePhoto cwd env photo uid None s))
     = latestPhotoTimestamp (snd (cachePhoto_part_000 cwd (ca_now env) (ca_write env) photo uid s))
   \<and> disk (snd (cachePhoto cwd env photo uid None s))
     = disk (snd (cachePhoto_part_000 cwd (ca_now env) (ca_write env) photo uid s))
   \<and> fst (cachePhoto cwd env photo uid None s)
     = fst (cachePhoto_part_000 cwd (ca_now env) (ca_write env) photo uid s)"
proof -
  let ?c = "storedPhotoOf photo uid (photoBaseName (ca_now env) photo)"
  have s1: "saveAndFollowUp cwd env photo uid None s =
      (case ca_write env of
         Some e \<Rightarrow> logError (''Failed to save photo to file: '' @ errorString e) s
       | None \<Rightarrow> s\<lparr>disk := (pathJoin [SNAPSHOTS_DIR cwd, photoBaseName (ca_now env) photo],
                              pd_buffer photo) # disk s\<rparr>)"
    by (simp add: saveAndFollowUp_def Let_def split: option.splits)
  have old: "cachePhoto_part_000 cwd (ca_now env) (ca_write env) photo uid s =
      cacheInMemory ?c uid (saveAndFollowUp cwd env photo uid None s)"
    by (simp add: cachePhoto_part_000_def Let_def s1 cacheInMemory_versions)
  show ?thesis
    by (simp add: old cachePhoto_def Let_def snd_rethrow fst_rethrow split: option.splits)
qed

subsection \<open>The button and the timer\<close>

lemma photos_onButtonPress:
  "photos (snd (onButtonPress cwd env uid session button s)) =
     (if pressType button = ''long'' then photos s
      else case pa_camera env of
             Inl e \<Rightarrow> photos s
           | Inr photo \<Rightarrow>
               photos (snd (cachePhoto cwd (pa_cache env) photo uid (Some session)
                              (s\<lparr>cameraRequests := Suc (cameraRequests s)\<rparr>))))"
  by (simp add: onButtonPress_def Let_def split: sum.splits prod.splits option.splits)

lemma fst_onButtonPress: "fst (onButtonPress cwd env uid session button s) = None"
  by (simp add: onButtonPress_def Let_def fst_caught split: sum.splits)

lemma photos_autoStreamTick:
  "photos (snd (autoStreamTick cwd env uid session s)) = photos s
   \<or> (\<exists>photo s'. photos s' = photos s
         \<and> photos (snd (autoStreamTick cwd env uid session s)) =
             photos (snd (cachePhoto cwd (ta_cache env) photo uid (Some session) s')))"
proof (cases "ta_camera env")
  case (Inl e)
  then show ?thesis by (simp add: autoStreamTick_def Let_def)
next
  case (Inr photo)
  let ?s2 = "s\<lparr> nextPhotoTime := (nextPhotoTime s)(uid \<mapsto> ta_nowSet env + 30000),
                 cameraRequests := Suc (cameraRequests s),
                 nextPhotoTime := ((nextPhotoTime s)(uid \<mapsto> ta_nowSet env + 30000))(uid \<mapsto> ta_nowAfter env) \<rparr>"
  have "photos ?s2 = photos s" by simp
  moreover have "photos (snd (autoStreamTick cwd env uid session s)) = photos s
     \<or> photos (snd (autoStreamTick cwd env uid session s)) =
             photos (snd (cachePhoto cwd (ta_cache env) photo uid (Some session) ?s2))"
    using Inr by (simp add: autoStreamTick_def Let_def split: prod.splits option.splits)
  ultimately show ?thesis by blast
qed

lemma fst_autoStreamTick: "fst (autoStreamTick cwd env uid session s) = None"
  by (simp add: autoStreamTick_def Let_def fst_caught split: sum.splits)

lemma autoStreamTick_idle:
  "\<not> (isStreamingPhotos s uid = Some True
       \<and> ta_nowCheck env > (case nextPhotoTime s uid of None \<Rightarrow> 0 | Some t \<Rightarrow> t)) \<Longrightarrow>
   autoStreamTick cwd env uid session s = (None, s)"
  unfolding autoStreamTick_def by (rule if_not_P)

lemma cameraRequests_autoStreamTick:
  "cameraRequests (snd (autoStreamTick cwd env uid session s)) =
     (if isStreamingPhotos s uid = Some True
         \<and> ta_nowCheck env > (case nextPhotoTime s uid of None \<Rightarrow> 0 | Some t \<Rightarrow> t)
      then (case ta_camera env of
              Inl e \<Rightarrow> Suc (cameraRequests s)
            | Inr photo \<Rightarrow>
                if ca_write (ta_cache env) = None then Suc (Suc (cameraRequests s))
                else Suc (cameraRequests s))
      else cameraRequests s)"
  by (simp add: autoStreamTick_def Let_def snd_caught cameraRequests_cachePhoto
           split: sum.splits option.splits)

lemma idle_ticks:
  "isStreamingPhotos s uid \<noteq> Some True \<Longrightarrow>
   foldl (\<lambda>st env. snd (autoStreamTick cwd env uid session st)) s envs = s"
  by (induction envs) (simp_all add: autoStreamTick_idle)

section \<open>The bound on the photo lists\<close>

text \<open>
  A property of every user's list holds in every state of a run when the empty list
  has it and inserting a record of that user at the head, cut to 50, keeps it.
\<close>

lemma photosInv_same: "photos s' = photos s \<Longrightarrow> photosInv P s \<Longrightarrow> photosInv P s'"
  by (simp add: photosInv_def photoList_def)

lemma photosInv_insert:
  assumes "photos s' = (photos s)(uid \<mapsto> take 50 (c # photoList s uid))"
    and "photosInv P s"
    and "P uid (photoList s uid) \<Longrightarrow> P uid (take 50 (c # photoList s uid))"
  shows "photosInv P s'"
  using assms by (simp add: photosInv_def photoList_def)

lemma photosInv_savePhotoOnly:
  assumes ins: "\<And>uid c l. P uid l \<Longrightarrow> userId c = uid \<Longrightarrow> P uid (take 50 (c # l))"
    and inv: "photosInv P s"
  shows "photosInv P (snd (savePhotoOnly cwd env photo uid s))"
proof (cases "sa_write env")
  case None
  let ?c = "storedPhotoOf photo uid (photoBaseName (sa_now env) photo)"
  from None have "photos (snd (savePhotoOnly cwd env photo uid s)) =
      (photos s)(uid \<mapsto> take 50 (?c # photoList s uid))"
    by (simp add: photos_savePhotoOnly)
  then show ?thesis using inv
    by (rule photosInv_insert) (erule ins, simp)
next
  case (Some e)
  then have "photos (snd (savePhotoOnly cwd env photo uid s)) = photos s"
    by (simp add: photos_savePhotoOnly)
  then show ?thesis using inv by (rule photosInv_same)
qed

lemma photosInv_followUpPhoto:
  assumes ins: "\<And>uid c l. P uid l \<Longrightarrow> userId c = uid \<Longrightarrow> P uid (take 50 (c # l))"
    and inv: "photosInv P s"
  shows "photosInv P (followUpPhoto cwd env uid s)"
proof (cases "ca_camera env")
  case (Inl e)
  then have "photos (followUpPhoto cwd env uid s) = photos s"
    by (simp add: photos_followUpPhoto)
  then show ?thesis using inv by (rule photosInv_same)
next
  case (Inr nextPhoto)
  let ?s1 = "s\<lparr>cameraRequests := Suc (cameraRequests s)\<rparr>"
  have "photos ?s1 = photos s" by simp
  then have "photosInv P ?s1" using inv by (rule photosInv_same)
  with ins have "photosInv P (snd (savePhotoOnly cwd (ca_followUp env) nextPhoto uid ?s1))"
    by (rule photosInv_savePhotoOnly)
  moreover have "photos (followUpPhoto cwd env uid s) =
      photos (snd (savePhotoOnly cwd (ca_followUp env) nextPhoto uid ?s1))"
    using Inr by (simp add: photos_followUpPhoto)
  ultimately show ?thesis by (rule photosInv_same [rotated])
qed

lemma photosInv_saveAndFollowUp:
  assumes ins: "\<And>uid c l. P uid l \<Longrightarrow> userId c = uid \<Longrightarrow> P uid (take 50 (c # l))"
    and inv: "photosInv P s"
  shows "photosInv P (saveAndFollowUp cwd env photo uid session s)"
proof (cases "ca_write env")
  case (Some e)
  then have "photos (saveAndFollowUp cwd env photo uid session s) = photos s"
    by (simp add: saveAndFollowUp_def)
  then show ?thesis using inv by (rule photosInv_same)
next
  case None
  let ?s0 = "s\<lparr>disk := (pathJoin [SNAPSHOTS_DIR cwd, photoBaseName (ca_now env) photo],
                         pd_buffer photo) # disk s\<rparr>"
  have "photos ?s0 = photos s" by simp
  then have c0: "photosInv P ?s0" using inv by (rule photosInv_same)
  show ?thesis
  proof (cases session)
    case None
    with \<open>ca_write env = None\<close> c0 show ?thesis by (simp add: saveAndFollowUp_def)
  next
    case (Some x)
    with \<open>ca_write env = None\<close> photosInv_followUpPhoto [of P, OF ins c0] show ?thesis
      by (simp add: saveAndFollowUp_def)
  qed
qed

lemma photosInv_cachePhoto:
  assumes ins: "\<And>uid c l. P uid l \<Longrightarrow> userId c = uid \<Longrightarrow> P uid (take 50 (c # l))"
    and inv: "photosInv P s"
  shows "photosInv P (snd (cachePhoto cwd env photo uid session s))"
proof (rule photosInv_insert [OF photos_cachePhoto])
  show "photosInv P (saveAndFollowUp cwd env photo uid session s)"
    using ins inv by (rule photosInv_saveAndFollowUp)
qed (erule ins, simp)

lemma photosInv_onButtonPress:
  assumes ins: "\<And>uid c l. P uid l \<Longrightarrow> userId c = uid \<Longrightarrow> P uid (take 50 (c # l))"
    and inv: "photosInv P s"
  shows "photosInv P (snd (onButtonPress cwd env uid session button s))"
proof -
  let ?s1 = "s\<lparr>cameraRequests := Suc (cameraRequests s)\<rparr>"
  have "photos ?s1 = photos s" by simp
  then have i1: "photosInv P ?s1" using inv by (rule photosInv_same)
  have "photos (snd (onButtonPress cwd env uid session button s)) = photos s
      \<or> (\<exists>photo. photos (snd (onButtonPress cwd env uid session button s)) =
            photos (snd (cachePhoto cwd (pa_cache env) photo uid (Some session) ?s1)))"
    by (auto simp: photos_onButtonPress split: sum.splits)
  then show ?thesis
  proof (elim disjE exE)
    assume "photos (snd (onButtonPress cwd env uid session button s)) = photos s"
    then show ?thesis using inv by (rule photosInv_same)
  next
    fix photo
    assume "photos (snd (onButtonPress cwd env uid session button s)) =
            photos (snd (cachePhoto cwd (pa_cache env) photo uid (Some session) ?s1))"
    then show ?thesis
      using photosInv_cachePhoto [of P, OF ins i1] by (rule photosInv_same)
  qed
qed

lemma photosInv_autoStreamTick:
  assumes ins: "\<And>uid c l. P uid l \<Longrightarrow> userId c = uid \<Longrightarrow> P uid (take 50 (c # l))"
    and inv: "photosInv P s"
  shows "photosInv P (snd (autoStreamTick cwd env uid session s))"
  using photos_autoStreamTick [of cwd env uid session s]
proof (elim disjE exE conjE)
  assume "photos (snd (autoStreamTick cwd env uid session s)) = photos s"
  then show ?thesis using inv by (rule photosInv_same)
next
  fix photo s'
  assume same: "photos s' = photos s"
    and eq: "photos (snd (autoStreamTick cwd env uid session s)) =
             photos (snd (cachePhoto cwd (ta_cache env) photo uid (Some session) s'))"
  from same inv have "photosInv P s'" by (rule photosInv_same)
  with ins have "photosInv P (snd (cachePhoto cwd (ta_cache env) photo uid (Some session) s'))"
    by (rule photosInv_cachePhoto)
  with eq show ?thesis by (rule photosInv_same)
qed

lemma photosInv_step:
  assumes ins: "\<And>uid c l. P uid l \<Longrightarrow> userId c = uid \<Longrightarrow> P uid (take 50 (c # l))"
    and inv: "photosInv P s"
  shows "photosInv P (step cwd s ev)"
proof (cases ev)
  case (DirEnsured a)
  have "photos (ensureSnapshotsDirExists a s) = photos s"
    by (simp add: ensureSnapshotsDirExists_def split: option.splits)
  then show ?thesis using inv DirEnsured by (simp add: photosInv_same)
next
  case (SessionStarted now session)
  have "photos (onSession now session s) = photos s"
    by (simp add: onSession_def Let_def)
  then show ?thesis using inv SessionStarted by (simp add: photosInv_same)
next
  case (ButtonPressed session button env)
  then show ?thesis using photosInv_onButtonPress [of P, OF ins inv] by simp
next
  case (TimerFired session env)
  then show ?thesis using photosInv_autoStreamTick [of P, OF ins inv] by simp
next
  case Stopped
  have "photos (onStop s) = photos s" by (simp add: onStop_def)
  then show ?thesis using inv Stopped by (simp add: photosInv_same)
next
  case (CachePhotoCalled photo uid session env)
  then show ?thesis using photosInv_cachePhoto [of P, OF ins inv] by simp
next
  case (SavePhotoOnlyCalled photo uid env)
  then show ?thesis using photosInv_savePhotoOnly [of P, OF ins inv] by simp
qed

lemma photosInv_foldl:
  assumes ins: "\<And>uid c l. P uid l \<Longrightarrow> userId c = uid \<Longrightarrow> P uid (take 50 (c # l))"
  shows "photosInv P s \<Longrightarrow> photosInv P (foldl (step cwd) s events)"
proof (induction events arbitrary: s)
  case Nil
  then show ?case by simp
next
  case (Cons ev events)
  from ins Cons.prems have "photosInv P (step cwd s ev)" by (rule photosInv_step)
  then show ?case using Cons.IH by simp
qed

lemma photosInv_run:
  assumes ins: "\<And>uid c l. P uid l \<Longrightarrow> userId c = uid \<Longrightarrow> P uid (take 50 (c # l))"
    and emp: "\<And>uid. P uid []"
  shows "photosInv P (run cwd events)"
  unfolding run_def using ins
proof (rule photosInv_foldl)
  show "photosInv P initialApp"
    by (simp add: photosInv_def photoList_def initialApp_def emp)
qed

text \<open>A full list stays full: the new record comes in and the oldest one goes.\<close>

lemma full_list_drops_oldest:
  assumes "length (photoList s uid) = 50"
  shows "photoList (snd (cacheInMemory c uid s)) uid = c # butlast (photoList s uid)"
proof -
  have "take 49 (photoList s uid) = butlast (photoList s uid)"
    using assms by (simp add: butlast_conv_take)
  then show ?thesis
    by (simp add: photoList_cacheInMemory)
qed

text \<open>
  Claim C1. For every user id, after any sequence of events of the application, and
  so after any sequence of \<open>cachePhoto\<close> and \<open>savePhotoOnly\<close> calls, whatever the
  outside world answers, the list stored for that user has at most 50 entries.
\<close>

theorem photo_list_at_most_50:
  "length (photoList (run cwd events) uid) \<le> 50"
proof -
  have "photosInv (\<lambda>uid l. length l \<le> 50) (run cwd events)"
    by (rule photosInv_run) simp_all
  then show ?thesis by (simp add: photosInv_def)
qed

section \<open>The order of the photo lists\<close>

lemma run_snoc: "run cwd (events @ [ev]) = step cwd (run cwd events) ev"
  by (simp add: run_def)

lemma photoList_saveAndFollowUp:
  "photoList (saveAndFollowUp cwd env photo uid session s) uid =
     (if ca_write env = None \<and> session \<noteq> None then
        (case ca_camera env of
           Inl e \<Rightarrow> photoList s uid
         | Inr nextPhoto \<Rightarrow>
             (case sa_write (ca_followUp env) of
                Some e \<Rightarrow> photoList s uid
              | None \<Rightarrow>
                  take 50 (storedPhotoOf nextPhoto uid
                             (photoBaseName (sa_now (ca_followUp env)) nextPhoto)
                           # photoList s uid)))
      else photoList s uid)"
proof -
  have pl: "photoList (s\<lparr>disk := d\<rparr>) uid = photoList s uid" for d
    by (simp add: photoList_def)
  have cr: "photoList (s\<lparr>disk := d, cameraRequests := n\<rparr>) uid = photoList s uid" for d n
    by (simp add: photoList_def)
  have lg: "photoList (logError msg s) uid = photoList s uid" for msg
    by (simp add: photoList_def)
  have fu: "photoList (followUpPhoto cwd env uid s') uid =
      (case ca_camera env of
         Inl e \<Rightarrow> photoList s' uid
       | Inr nextPhoto \<Rightarrow>
           photoList (snd (savePhotoOnly cwd (ca_followUp env) nextPhoto uid
                        (s'\<lparr>cameraRequests := Suc (cameraRequests s')\<rparr>))) uid)" for s'
    by (simp add: photoList_def photos_followUpPhoto split: sum.splits)
  show ?thesis
    by (simp add: saveAndFollowUp_def Let_def lg pl fu photoList_savePhotoOnly cr
             split: option.splits sum.splits)
qed

lemma photoMetas_in_order:
  "\<forall>p\<in>set l. timestamp p \<noteq> None \<Longrightarrow>
   \<exists>ms. photoMetas l = Inr ms
      \<and> map pm_requestId ms = map requestId l
      \<and> map (\<lambda>m. Some (pm_timestamp m)) ms = map timestamp l
      \<and> map pm_filename ms = map filename l
      \<and> map pm_size ms = map photoSize l
      \<and> map pm_mimeType ms = map mimeType l"
proof (induction l)
  case Nil
  then show ?case by simp
next
  case (Cons p l)
  then obtain t where t: "timestamp p = Some t" by auto
  from Cons obtain ms where "photoMetas l = Inr ms"
      "map pm_requestId ms = map requestId l"
      "map (\<lambda>m. Some (pm_timestamp m)) ms = map timestamp l"
      "map pm_filename ms = map filename l"
      "map pm_size ms = map photoSize l"
      "map pm_mimeType ms = map mimeType l"
    by auto
  with t show ?case by simp
qed

text \<open>
  Claim C2. \<open>cachePhoto\<close> puts the new record at the head of the user's list, in front
  of what the list held when the insertion was reached (the follow-up photo, when one
  was taken and saved, is then already in it); \<open>savePhotoOnly\<close> does the same when its
  file write succeeded. So after any run that ends with a \<open>cachePhoto\<close> call, index 0
  holds the record of that call, and \<open>/api/photos\<close> answers an authenticated request
  with the records of the list in the list's order.
\<close>

theorem newest_photo_first:
  "photoList (snd (cachePhoto cwd env photo uid session s)) uid
     = take 50 (storedPhotoOf photo uid (photoBaseName (ca_now env) photo)
                # photoList (saveAndFollowUp cwd env photo uid session s) uid)
   \<and> photoList (saveAndFollowUp cwd env photo uid session s) uid
     = (if ca_write env = None \<and> session \<noteq> None then
          (case ca_camera env of
             Inl e \<Rightarrow> photoList s uid
           | Inr nextPhoto \<Rightarrow>
               (case sa_write (ca_followUp env) of
                  Some e \<Rightarrow> photoList s uid
                | None \<Rightarrow>
                    take 50 (storedPhotoOf nextPhoto uid
                               (photoBaseName (sa_now (ca_followUp env)) nextPhoto)
                             # photoList s uid)))
        else photoList s uid)
   \<and> photoList (snd (cachePhoto cwd env photo uid session s)) uid ! 0
     = storedPhotoOf photo uid (photoBaseName (ca_now env) photo)
   \<and> photoList (run cwd (events @ [CachePhotoCalled photo uid session env])) uid ! 0
     = storedPhotoOf photo uid (photoBaseName (ca_now env) photo)
   \<and> (sa_write senv = None \<longrightarrow>
        photoList (snd (savePhotoOnly cwd senv photo uid s)) uid
          = take 50 (storedPhotoOf photo uid (photoBaseName (sa_now senv) photo)
                     # photoList s uid))
   \<and> (uid \<noteq> [] \<and> (\<forall>p\<in>set (photoList s uid). timestamp p \<noteq> None) \<longrightarrow>
        (\<exists>ms. photosRoute (Some uid) s = Inr \<lparr> status = 200, headers = [], body = JsonPhotos ms \<rparr>
           \<and> map pm_requestId ms = map requestId (photoList s uid)
           \<and> map (\<lambda>m. Some (pm_timestamp m)) ms = map timestamp (photoList s uid)
           \<and> map pm_filename ms = map filename (photoList s uid)
           \<and> map pm_size ms = map photoSize (photoList s uid)
           \<and> map pm_mimeType ms = map mimeType (photoList s uid)))"
proof (intro conjI impI)
  show "photoList (snd (cachePhoto cwd env photo uid session s)) uid
     = take 50 (storedPhotoOf photo uid (photoBaseName (ca_now env) photo)
                # photoList (saveAndFollowUp cwd env photo uid session s) uid)"
    by (rule photoList_cachePhoto)
  then show "photoList (snd (cachePhoto cwd env photo uid session s)) uid ! 0
     = storedPhotoOf photo uid (photoBaseName (ca_now env) photo)"
    by simp
  show "photoList (saveAndFollowUp cwd env photo uid session s) uid
     = (if ca_write env = None \<and> session \<noteq> None then
          (case ca_camera env of
             Inl e \<Rightarrow> photoList s uid
           | Inr nextPhoto \<Rightarrow>
               (case sa_write (ca_followUp env) of
                  Some e \<Rightarrow> photoList s uid
                | None \<Rightarrow>
                    take 50 (storedPhotoOf nextPhoto uid
                               (photoBaseName (sa_now (ca_followUp env)) nextPhoto)
                             # photoList s uid)))
        else photoList s uid)"
    by (rule photoList_saveAndFollowUp)
  show "photoList (run cwd (events @ [CachePhotoCalled photo uid session env])) uid ! 0
     = storedPhotoOf photo uid (photoBaseName (ca_now env) photo)"
    by (simp add: run_snoc photoList_cachePhoto)
next
  assume "sa_write senv = None"
  then show "photoList (snd (savePhotoOnly cwd senv photo uid s)) uid
          = take 50 (storedPhotoOf photo uid (photoBaseName (sa_now senv) photo)
                     # photoList s uid)"
    by (simp add: photoList_savePhotoOnly)
next
  assume a: "uid \<noteq> [] \<and> (\<forall>p\<in>set (photoList s uid). timestamp p \<noteq> None)"
  then obtain ms where ms: "photoMetas (photoList s uid) = Inr ms"
      "map pm_requestId ms = map requestId (photoList s uid)"
      "map (\<lambda>m. Some (pm_timestamp m)) ms = map timestamp (photoList s uid)"
      "map pm_filename ms = map filename (photoList s uid)"
      "map pm_size ms = map photoSize (photoList s uid)"
      "map pm_mimeType ms = map mimeType (photoList s uid)"
    using photoMetas_in_order [of "photoList s uid"] by blast
  from a ms(1) have "photosRoute (Some uid) s = Inr \<lparr> status = 200, headers = [], body = JsonPhotos ms \<rparr>"
    by (simp add: photosRoute_def authenticatedUser_def)
  with ms show "\<exists>ms. photosRoute (Some uid) s = Inr \<lparr> status = 200, headers = [], body = JsonPhotos ms \<rparr>
           \<and> map pm_requestId ms = map requestId (photoList s uid)
           \<and> map (\<lambda>m. Some (pm_timestamp m)) ms = map timestamp (photoList s uid)
           \<and> map pm_filename ms = map filename (photoList s uid)
           \<and> map pm_size ms = map photoSize (photoList s uid)
           \<and> map pm_mimeType ms = map mimeType (photoList s uid)"
    by blast
qed

theorem newest_photo_first_witness:
  "sa_write saveOk = None
   \<and> ''u1'' \<noteq> []
   \<and> map timestamp (photoList stateWithOnePhoto ''u1'') = [Some 1700000000000]
   \<and> map filename (photoList (snd (cachePhoto ''/app'' cacheOk examplePhoto1 ''u1''
                                     (Some exampleSession) stateWithOnePhoto)) ''u1'')
      = [''photo_1970-01-01T00-00-00.000Z_req1.jpg'',
         ''photo_2023-11-14T22-13-20.000Z_req2.png'',
         ''photo_2023-11-14T22-13-20.000Z_req2.png'']
   \<and> photoList (snd (cachePhoto ''/app'' cacheOk examplePhoto1 ''u1''
                        (Some exampleSession) stateWithOnePhoto)) ''u1'' ! 0
      = storedPhotoOf examplePhoto1 ''u1'' (photoBaseName (ca_now cacheOk) examplePhoto1)
   \<and> (\<exists>ms. photosRoute (Some ''u1'') stateWithOnePhoto
              = Inr \<lparr> status = 200, headers = [], body = JsonPhotos ms \<rparr>
         \<and> map pm_filename ms = map filename (photoList stateWithOnePhoto ''u1''))"
proof -
  have h1: "sa_write saveOk = None"
    by code_simp
  have stamps: "map timestamp (photoList stateWithOnePhoto ''u1'') = [Some 1700000000000]"
    by code_simp
  have h2: "''u1'' \<noteq> [] \<and> (\<forall>p\<in>set (photoList stateWithOnePhoto ''u1''). timestamp p \<noteq> None)"
    by code_simp
  have names: "map filename (photoList (snd (cachePhoto ''/app'' cacheOk examplePhoto1 ''u1''
                                     (Some exampleSession) stateWithOnePhoto)) ''u1'')
      = [''photo_1970-01-01T00-00-00.000Z_req1.jpg'',
         ''photo_2023-11-14T22-13-20.000Z_req2.png'',
         ''photo_2023-11-14T22-13-20.000Z_req2.png'']"
    by code_simp
  note inst = newest_photo_first [where cwd = "''/app''" and env = cacheOk
      and photo = examplePhoto1 and uid = "''u1''" and session = "Some exampleSession"
      and s = stateWithOnePhoto and senv = saveOk]
  from inst h2 have "\<exists>ms. photosRoute (Some ''u1'') stateWithOnePhoto
              = Inr \<lparr> status = 200, headers = [], body = JsonPhotos ms \<rparr>
         \<and> map pm_filename ms = map filename (photoList stateWithOnePhoto ''u1'')"
    by blast
  with inst h1 h2 stamps names show ?thesis by blast
qed

section \<open>Requests without an authenticated user\<close>

lemma unauthenticated_route:
  assumes "authenticatedUser a = None" and "r \<noteq> Root"
  shows "handleGet r a rendered s = Inr (if r = Webview then notAuthenticatedPage else notAuthenticated)"
  using assms
  by (cases r)
     (simp_all add: latestPhotoRoute_def photosRoute_def photoRoute_def webviewRoute_def)

text \<open>
  Claim C3, as stated, fails on the route \<open>/\<close>: without \<open>authUserId\<close> the answer is the
  redirect, with status 302 and not 401.
\<close>

theorem root_route_answers_302:
  "statusOf (handleGet Root None (Inr ''<html></html>'') initialApp) = Some 302
   \<and> statusOf (handleGet Root None (Inr ''<html></html>'') initialApp) \<noteq> Some 401"
  by (simp add: statusOf_def rootRoute_def)

text \<open>
  Claim C3, amended. Each of \<open>/api/latest-photo\<close>, \<open>/api/photos\<close>,
  \<open>/api/photo/:requestId\<close> and \<open>/webview\<close> answers a request whose \<open>authUserId\<close> is
  absent (or empty) with status 401 and a fixed body without photo data, whatever the
  state holds. The route \<open>/\<close> does not look at \<open>authUserId\<close>: it answers every request
  with the redirect to \<open>/webview\<close>, status 302, which carries no photo data either.
\<close>

theorem unauthenticated_requests:
  "(authenticatedUser a = None \<and> r \<noteq> Root \<longrightarrow>
      handleGet r a rendered s = Inr (if r = Webview then notAuthenticatedPage else notAuthenticated)
      \<and> statusOf (handleGet r a rendered s) = Some 401
      \<and> \<not> servesPhotoData (handleGet r a rendered s))
   \<and> authenticatedUser None = None
   \<and> handleGet Root a rendered s =
        Inr \<lparr> status = 302, headers = [(''Location'', Some ''/webview'')],
              body = RedirectNotice ''/webview'' \<rparr>
   \<and> \<not> servesPhotoData (handleGet Root a rendered s)"
proof (intro conjI impI)
  assume h: "authenticatedUser a = None \<and> r \<noteq> Root"
  then show eq: "handleGet r a rendered s
      = Inr (if r = Webview then notAuthenticatedPage else notAuthenticated)"
    by (simp add: unauthenticated_route)
  show "statusOf (handleGet r a rendered s) = Some 401"
    by (simp add: eq statusOf_def notAuthenticatedPage_def notAuthenticated_def)
  show "\<not> servesPhotoData (handleGet r a rendered s)"
    by (simp add: eq servesPhotoData_def notAuthenticatedPage_def notAuthenticated_def)
qed (simp_all add: authenticatedUser_def rootRoute_def servesPhotoData_def)

theorem unauthenticated_requests_witness:
  "(authenticatedUser None = None \<and> Photo ''req2'' \<noteq> Root)
   \<and> map requestId (photoList stateWithOnePhoto ''u1'') = [Some ''req2'']
   \<and> handleGet (Photo ''req2'') None (Inr ''<html></html>'') stateWithOnePhoto = Inr notAuthenticated
   \<and> statusOf (handleGet (Photo ''req2'') None (Inr ''<html></html>'') stateWithOnePhoto) = Some 401
   \<and> \<not> servesPhotoData (handleGet (Photo ''req2'') None (Inr ''<html></html>'') stateWithOnePhoto)"
proof -
  have h: "authenticatedUser None = None \<and> Photo ''req2'' \<noteq> Root"
    by (simp add: authenticatedUser_def)
  have l: "map requestId (photoList stateWithOnePhoto ''u1'') = [Some ''req2'']"
    by code_simp
  from h l unauthenticated_requests [where a = None and r = "Photo ''req2''"
      and rendered = "Inr ''<html></html>''" and s = stateWithOnePhoto]
  show ?thesis by auto
qed

section \<open>The files written to disk\<close>

subsection \<open>Paths of plain file names\<close>

lemma splitSlash_nonempty [simp]: "splitSlash p \<noteq> []"
  by (induction p) (auto split: list.splits)

lemma splitSlash_append:
  "splitSlash (p @ CHR ''/'' # q) = splitSlash p @ splitSlash q"
proof (induction p)
  case Nil
  show ?case by simp
next
  case (Cons c p)
  obtain seg segs where s: "splitSlash p = seg # segs"
    by (cases "splitSlash p") simp_all
  with Cons show ?case by simp
qed

lemma splitSlash_plain: "CHR ''/'' \<notin> set b \<Longrightarrow> splitSlash b = [b]"
  by (induction b) auto

lemma splitSlash_no_separator: "seg \<in> set (splitSlash p) \<Longrightarrow> CHR ''/'' \<notin> set seg"
proof (induction p arbitrary: seg)
  case Nil
  then show ?case by simp
next
  case (Cons c p)
  obtain s0 segs where s: "splitSlash p = s0 # segs"
    by (cases "splitSlash p") simp_all
  with Cons show ?case
    by (auto split: if_splits)
qed

lemma splitSlash_joinSlash:
  "segs \<noteq> [] \<Longrightarrow> \<forall>seg\<in>set segs. CHR ''/'' \<notin> set seg \<Longrightarrow> splitSlash (joinSlash segs) = segs"
proof (induction segs rule: joinSlash.induct)
  case 1
  then show ?case by simp
next
  case (2 seg)
  then show ?case by (simp add: splitSlash_plain)
next
  case (3 seg v va)
  then have "splitSlash (joinSlash (v # va)) = v # va" by simp
  moreover have "splitSlash seg = [seg]" using 3 by (simp add: splitSlash_plain)
  ultimately show ?case by (simp add: splitSlash_append)
qed

lemma normalizeSegments_snoc:
  "plainSegment b \<Longrightarrow>
   normalizeSegments allow acc (segs @ [b]) = normalizeSegments allow acc segs @ [b]"
proof (induction segs arbitrary: acc)
  case Nil
  then show ?case by (simp add: plainSegment_def)
next
  case (Cons seg segs)
  then show ?case by (cases allow) (simp_all split: list.splits)
qed

lemma normalizeSegments_skip_empty:
  "normalizeSegments allow acc ([] # segs) = normalizeSegments allow acc segs"
  by simp

lemma joinSlash_snoc:
  "segs \<noteq> [] \<Longrightarrow> joinSlash (segs @ [b]) = joinSlash segs @ ''/'' @ b"
proof (induction segs rule: joinSlash.induct)
  case 1
  then show ?case by simp
next
  case (2 seg)
  then show ?case by simp
next
  case (3 seg v va)
  then show ?case by simp
qed

lemma hd_joinSlash: "segs \<noteq> [] \<Longrightarrow> hd segs \<noteq> [] \<Longrightarrow> hd (joinSlash segs) = hd (hd segs)"
  by (induction segs rule: joinSlash.induct) simp_all

lemma joinSlash_nonempty: "segs \<noteq> [] \<Longrightarrow> hd segs \<noteq> [] \<Longrightarrow> joinSlash segs \<noteq> []"
  by (induction segs rule: joinSlash.induct) simp_all

lemma normalAcc_older: "normalAcc allow (newer @ older) \<Longrightarrow> normalAcc allow older"
proof (induction newer)
  case Nil
  then show ?case by simp
next
  case (Cons seg newer)
  show ?case
  proof (cases "seg = ''..''")
    case True
    with Cons.prems have a: "allow" and d: "list_all (\<lambda>s. s = ''..'') (newer @ older)"
      by simp_all
    from d have "list_all (\<lambda>s. s = ''..'') older" by simp
    with a show ?thesis
      by (induction older) simp_all
  next
    case False
    with Cons show ?thesis by simp
  qed
qed

lemma normalAcc_segment:
  "normalAcc allow acc \<Longrightarrow> seg \<in> set acc \<Longrightarrow> seg \<noteq> [] \<and> CHR ''/'' \<notin> set seg"
proof (induction acc)
  case Nil
  then show ?case by simp
next
  case (Cons s acc)
  show ?case
  proof (cases "s = ''..''")
    case True
    with Cons.prems have "list_all (\<lambda>x. x = ''..'') (s # acc)" by simp
    with Cons.prems(2) have "seg = ''..''" by (auto simp: list_all_iff)
    then show ?thesis by simp
  next
    case False
    with Cons show ?thesis by (auto simp: plainSegment_def)
  qed
qed

lemma normalAcc_normalizeSegments:
  "normalAcc allow acc \<Longrightarrow> \<forall>seg\<in>set segs. CHR ''/'' \<notin> set seg \<Longrightarrow>
   normalAcc allow (rev (normalizeSegments allow acc segs))"
proof (induction segs arbitrary: acc)
  case Nil
  then show ?case by simp
next
  case (Cons seg segs)
  from Cons.prems have rest: "\<forall>s\<in>set segs. CHR ''/'' \<notin> set s" and here: "CHR ''/'' \<notin> set seg"
    by simp_all
  show ?case
  proof (cases "seg = [] \<or> seg = ''.''")
    case True
    with Cons.IH [OF Cons.prems(1) rest] show ?thesis by auto
  next
    case False
    show ?thesis
    proof (cases "seg = ''..''")
      case dots: True
      show ?thesis
      proof (cases acc)
        case Nil
        have "normalAcc allow (if allow then [''..''] else [])" by simp
        from Cons.IH [OF this rest] dots Nil show ?thesis by simp
      next
        case (Cons prev below)
        show ?thesis
        proof (cases "prev = ''..''")
          case True
          with Cons.prems(1) Cons have "normalAcc allow (seg # acc)"
            using dots by simp
          from Cons.IH [OF this rest] dots Cons True show ?thesis by simp
        next
          case False
          with Cons.prems(1) Cons have "normalAcc allow below" by simp
          from Cons.IH [OF this rest] dots Cons False show ?thesis by simp
        qed
      qed
    next
      case plain: False
      with False here have "plainSegment seg" by (simp add: plainSegment_def)
      with Cons.prems(1) plain have "normalAcc allow (seg # acc)" by simp
      from Cons.IH [OF this rest] False plain show ?thesis by simp
    qed
  qed
qed

lemma normalizeSegments_normal:
  "normalAcc allow (rev segs @ acc) \<Longrightarrow> normalizeSegments allow acc segs = rev acc @ segs"
proof (induction segs arbitrary: acc)
  case Nil
  then show ?case by simp
next
  case (Cons seg segs)
  from Cons.prems have all: "normalAcc allow (rev segs @ seg # acc)" by simp
  then have here: "normalAcc allow (seg # acc)" by (rule normalAcc_older)
  have step: "normalizeSegments allow acc (seg # segs) = normalizeSegments allow (seg # acc) segs"
  proof (cases "seg = ''..''")
    case True
    with here have a: allow and d: "list_all (\<lambda>s. s = ''..'') acc" by simp_all
    show ?thesis
    proof (cases acc)
      case Nil
      with True a show ?thesis by simp
    next
      case (Cons prev below)
      with d have "prev = ''..''" by simp
      with True Cons show ?thesis by simp
    qed
  next
    case False
    with here have "plainSegment seg" by simp
    with False show ?thesis by (simp add: plainSegment_def)
  qed
  from Cons.IH [OF all] step show ?case by simp
qed

lemma normalizePath_kept:
  assumes "p \<noteq> []" and "last p \<noteq> CHR ''/''"
    and "normalizeSegments (hd p \<noteq> CHR ''/'') [] (splitSlash p) = segs"
    and "joinSlash segs \<noteq> []"
  shows "normalizePath p = (if hd p = CHR ''/'' then ''/'' else []) @ joinSlash segs"
  using assms by (simp add: normalizePath_def Let_def)

lemma pathJoin_normalDir:
  assumes d: "normalDir d" and b: "plainSegment b"
  shows "pathJoin [d, b] = d @ ''/'' @ b"
proof -
  from d obtain isAbsolute segs where segs: "segs \<noteq> []"
      and nf: "normalAcc (\<not> isAbsolute) (rev segs)"
      and d_eq: "d = (if isAbsolute then ''/'' else []) @ joinSlash segs"
    by (auto simp: normalDir_def)
  from nf have seg_ok: "\<forall>seg\<in>set segs. seg \<noteq> [] \<and> CHR ''/'' \<notin> set seg"
    using normalAcc_segment [of "\<not> isAbsolute" "rev segs"] by auto
  from segs seg_ok have hd_ok: "hd segs \<noteq> []" "CHR ''/'' \<notin> set (hd segs)"
    by (cases segs; simp)+
  from segs hd_ok have j_ne: "joinSlash segs \<noteq> []"
    by (simp add: joinSlash_nonempty)
  with d_eq have d_ne: "d \<noteq> []" by simp
  from b have b_ne: "b \<noteq> []" and b_plain: "CHR ''/'' \<notin> set b"
    by (simp_all add: plainSegment_def)
  define p where "p = d @ ''/'' @ b"
  have p_ne: "p \<noteq> []"
    by (simp add: p_def)
  have join: "pathJoin [d, b] = normalizePath p"
    using d_ne b_ne by (simp add: pathJoin_def p_def)
  have hd_j: "hd (joinSlash segs) \<noteq> CHR ''/''"
    using segs hd_ok by (cases "hd segs") (auto simp: hd_joinSlash)
  have abs: "(hd p = CHR ''/'') = isAbsolute"
    using d_ne d_eq hd_j j_ne by (cases isAbsolute) (simp_all add: p_def)
  have "last p = last b"
    using b_ne by (simp add: p_def)
  moreover have "last b \<in> set b"
    using b_ne by simp
  ultimately have trailing: "last p \<noteq> CHR ''/''"
    using b_plain by metis
  have split_d: "splitSlash d = (if isAbsolute then [[]] else []) @ segs"
  proof (cases isAbsolute)
    case True
    then have "splitSlash d = splitSlash ([] @ CHR ''/'' # joinSlash segs)"
      by (simp add: d_eq)
    also have "\<dots> = splitSlash [] @ splitSlash (joinSlash segs)"
      by (rule splitSlash_append)
    finally show ?thesis
      using True segs seg_ok by (simp add: splitSlash_joinSlash)
  next
    case False
    then show ?thesis
      using segs seg_ok by (simp add: d_eq splitSlash_joinSlash)
  qed
  have "splitSlash p = splitSlash d @ splitSlash b"
    unfolding p_def by (simp add: splitSlash_append)
  then have "splitSlash p = splitSlash d @ [b]"
    using b_plain by (simp add: splitSlash_plain)
  then have "normalizeSegments (\<not> isAbsolute) [] (splitSlash p)
      = normalizeSegments (\<not> isAbsolute) [] (splitSlash d) @ [b]"
    using b by (simp add: normalizeSegments_snoc)
  also have "normalizeSegments (\<not> isAbsolute) [] (splitSlash d)
      = normalizeSegments (\<not> isAbsolute) [] segs"
    by (cases isAbsolute) (simp_all add: split_d)
  also have "\<dots> = segs"
    using normalizeSegments_normal [of "\<not> isAbsolute" segs "[]"] nf by simp
  finally have norm: "normalizeSegments (hd p \<noteq> CHR ''/'') [] (splitSlash p) = segs @ [b]"
    by (simp add: abs)
  have body: "joinSlash (segs @ [b]) = joinSlash segs @ ''/'' @ b"
    using segs by (rule joinSlash_snoc)
  then have "joinSlash (segs @ [b]) \<noteq> []"
    by simp
  with p_ne trailing norm
  have "normalizePath p = (if hd p = CHR ''/'' then ''/'' else []) @ joinSlash (segs @ [b])"
    by (rule normalizePath_kept)
  with join d_eq abs body show ?thesis
    by simp
qed

lemma normalDir_SNAPSHOTS_DIR: "normalDir (SNAPSHOTS_DIR cwd)"
proof -
  define j where "j = (if cwd = [] then ''snapshots'' else cwd @ CHR ''/'' # ''snapshots'')"
  define isAbsolute where "isAbsolute \<longleftrightarrow> hd j = CHR ''/''"
  have snap: "plainSegment ''snapshots''"
    by (simp add: plainSegment_def)
  have dir: "SNAPSHOTS_DIR cwd = normalizePath j"
    by (simp add: SNAPSHOTS_DIR_def pathJoin_def j_def)
  have "\<exists>before. splitSlash j = before @ [''snapshots'']"
  proof (cases "cwd = []")
    case True
    then have "splitSlash j = [] @ [''snapshots'']" by (simp add: j_def)
    then show ?thesis by blast
  next
    case False
    then have "splitSlash j = splitSlash cwd @ splitSlash ''snapshots''"
      unfolding j_def by (simp only: if_False splitSlash_append)
    then have "splitSlash j = splitSlash cwd @ [''snapshots'']"
      by simp
    then show ?thesis by blast
  qed
  then obtain before where before: "splitSlash j = before @ [''snapshots'']"
    by blast
  define kept where "kept = normalizeSegments (\<not> isAbsolute) [] before"
  have segs: "normalizeSegments (\<not> isAbsolute) [] (splitSlash j) = kept @ [''snapshots'']"
    unfolding kept_def before using snap by (rule normalizeSegments_snoc)
  have "normalAcc (\<not> isAbsolute) (rev (normalizeSegments (\<not> isAbsolute) [] (splitSlash j)))"
    by (rule normalAcc_normalizeSegments) (simp_all add: splitSlash_no_separator)
  then have nf: "normalAcc (\<not> isAbsolute) (rev (kept @ [''snapshots'']))"
    by (simp only: segs)
  have ne: "kept @ [''snapshots''] \<noteq> []"
    by simp
  then have "hd (kept @ [''snapshots'']) \<in> set (kept @ [''snapshots''])"
    by (rule hd_in_set)
  then have "hd (kept @ [''snapshots'']) \<in> set (rev (kept @ [''snapshots'']))"
    by (simp only: set_rev)
  with nf have hd_ne: "hd (kept @ [''snapshots'']) \<noteq> []"
    using normalAcc_segment by blast
  have body_ne: "joinSlash (kept @ [''snapshots'']) \<noteq> []"
    using ne hd_ne by (rule joinSlash_nonempty)
  have j_ne: "j \<noteq> []"
    by (simp add: j_def)
  have trailing: "last j \<noteq> CHR ''/''"
    by (simp add: j_def)
  have "normalizeSegments (hd j \<noteq> CHR ''/'') [] (splitSlash j) = kept @ [''snapshots'']"
    using segs by (simp add: isAbsolute_def)
  with j_ne trailing
  have "normalizePath j = (if hd j = CHR ''/'' then ''/'' else []) @ joinSlash (kept @ [''snapshots''])"
    using body_ne by (rule normalizePath_kept)
  then have "SNAPSHOTS_DIR cwd
      = (if isAbsolute then ''/'' else []) @ joinSlash (kept @ [''snapshots''])"
    by (simp only: dir isAbsolute_def)
  with ne nf show ?thesis
    unfolding normalDir_def by blast
qed

subsection \<open>The generated name\<close>

lemma digitChar_digit: "digitChar d \<in> set ''0123456789''"
proof -
  have "nat (d mod 10) < length ''0123456789''"
    by simp
  then show ?thesis
    unfolding digitChar_def by (rule nth_mem)
qed

lemma padDigits_no_separator: "CHR ''/'' \<notin> set (padDigits w k)"
proof (induction w arbitrary: k)
  case 0
  show ?case by simp
next
  case (Suc w)
  have "digitChar (k mod 10) \<noteq> CHR ''/''"
    using digitChar_digit [of "k mod 10"] by auto
  with Suc show ?case by simp
qed

lemma toISOString_no_separator: "CHR ''/'' \<notin> set (toISOString t)"
proof -
  obtain y m d where c: "civilFromDays (t div 86400000) = (y, m, d)"
    by (cases "civilFromDays (t div 86400000)")
  show ?thesis
    by (simp add: toISOString_def c yearString_def timeString_def padDigits_no_separator)
qed

lemma safeTimestamp_no_separator: "CHR ''/'' \<notin> set (safeTimestamp d)"
  using toISOString_no_separator [of d] by (auto simp: safeTimestamp_def)

lemma safeTimestamp_no_colon: "CHR '':'' \<notin> set (safeTimestamp d)"
  by (auto simp: safeTimestamp_def)

lemma extFromMime_no_separator: "CHR ''/'' \<notin> set (extFromMime mime)"
  by (simp add: extFromMime_def split: option.splits)

lemma photoBaseName_parts:
  "photoBaseName now photo =
     ''photo_''
     @ map (\<lambda>c. if c = CHR '':'' then CHR ''-'' else c)
         (toISOString (case pd_timestamp photo of None \<Rightarrow> now | Some d \<Rightarrow> d))
     @ ''_'' @ (case pd_requestId photo of None \<Rightarrow> ''unknown'' | Some r \<Rightarrow> r)
     @ extFromMime (pd_mimeType photo)"
  by (simp add: photoBaseName_def safeTimestamp_def Let_def)

lemma plainSegment_photoBaseName:
  assumes "CHR ''/'' \<notin> set (case pd_requestId photo of None \<Rightarrow> ''unknown'' | Some r \<Rightarrow> r)"
  shows "plainSegment (photoBaseName now photo)"
  using assms safeTimestamp_no_separator extFromMime_no_separator
  by (simp add: plainSegment_def photoBaseName_def Let_def)

text \<open>
  For a request id without a separator (and for a missing one) the path the photo is
  written to is the snapshots directory, a separator and the generated name.
\<close>

lemma snapshot_path_of_plain_request_id:
  assumes "CHR ''/'' \<notin> set (case pd_requestId photo of None \<Rightarrow> ''unknown'' | Some r \<Rightarrow> r)"
  shows "pathJoin [SNAPSHOTS_DIR cwd, photoBaseName now photo]
       = SNAPSHOTS_DIR cwd @ ''/'' @ photoBaseName now photo"
  using normalDir_SNAPSHOTS_DIR plainSegment_photoBaseName [OF assms]
  by (rule pathJoin_normalDir)

lemma files_of_plain_request_ids:
  assumes "CHR ''/'' \<notin> set (case pd_requestId photo of None \<Rightarrow> ''unknown'' | Some r \<Rightarrow> r)"
  shows "sa_write senv = None \<Longrightarrow>
         disk (snd (savePhotoOnly cwd senv photo uid s)) =
           (SNAPSHOTS_DIR cwd @ ''/'' @ photoBaseName (sa_now senv) photo, pd_buffer photo) # disk s"
    and "ca_write cenv = None \<Longrightarrow>
         disk (snd (cachePhoto cwd cenv photo uid None s)) =
           (SNAPSHOTS_DIR cwd @ ''/'' @ photoBaseName (ca_now cenv) photo, pd_buffer photo) # disk s"
  using snapshot_path_of_plain_request_id [OF assms]
  by (simp_all add: disk_savePhotoOnly disk_cachePhoto_no_session)

subsection \<open>A request id with separators\<close>

text \<open>
  Claim C4. The file is written directly under the snapshots directory, under the
  generated name, when the request id has no path separator (the lemmas above). It is
  not for the other request ids: the id goes into the name as it is, and \<open>path.join\<close>
  resolves the \<open>..\<close> segments it brings. With the working directory \<open>/app\<close>, a JPEG photo taken at
  time 0 with the request id \<open>/../../evil\<close> is written by \<open>cachePhoto\<close> and by
  \<open>savePhotoOnly\<close> to \<open>/app/evil.jpg\<close>, outside \<open>/app/snapshots\<close>, and the name of that
  file is not the generated name, which the record keeps as its \<open>filename\<close>.
\<close>

theorem request_id_with_separators_leaves_snapshots:
  "SNAPSHOTS_DIR ''/app'' = ''/app/snapshots''
   \<and> photoBaseName (ca_now cacheOk) escapingPhoto
       = ''photo_1970-01-01T00-00-00.000Z_/../../evil.jpg''
   \<and> disk (snd (cachePhoto ''/app'' cacheOk escapingPhoto ''u1'' None initialApp))
       = [(''/app/evil.jpg'', [1, 2, 3])]
   \<and> disk (snd (savePhotoOnly ''/app'' saveOk escapingPhoto ''u1'' initialApp))
       = [(''/app/evil.jpg'', [1, 2, 3])]
   \<and> map filename (photoList (snd (cachePhoto ''/app'' cacheOk escapingPhoto ''u1'' None initialApp)) ''u1'')
       = [''photo_1970-01-01T00-00-00.000Z_/../../evil.jpg'']"
proof (intro conjI)
  show "SNAPSHOTS_DIR ''/app'' = ''/app/snapshots''"
    by code_simp
  show "photoBaseName (ca_now cacheOk) escapingPhoto
       = ''photo_1970-01-01T00-00-00.000Z_/../../evil.jpg''"
    by code_simp
  show "disk (snd (cachePhoto ''/app'' cacheOk escapingPhoto ''u1'' None initialApp))
       = [(''/app/evil.jpg'', [1, 2, 3])]"
    by code_simp
  show "disk (snd (savePhotoOnly ''/app'' saveOk escapingPhoto ''u1'' initialApp))
       = [(''/app/evil.jpg'', [1, 2, 3])]"
    by code_simp
  show "map filename (photoList (snd (cachePhoto ''/app'' cacheOk escapingPhoto ''u1'' None initialApp)) ''u1'')
       = [''photo_1970-01-01T00-00-00.000Z_/../../evil.jpg'']"
    by code_simp
qed

section \<open>The keys of the uploads\<close>

lemma bucketKeyed_same: "bucket s' = bucket s \<Longrightarrow> bucketKeyed cwd s \<Longrightarrow> bucketKeyed cwd s'"
  by (simp add: bucketKeyed_def)

lemma bucketKeyed_uploadToFirebase:
  "bucketKeyed cwd s \<Longrightarrow> bucketKeyed cwd (uploadToFirebase cwd ans c s)"
  by (auto simp: bucketKeyed_def bucket_uploadToFirebase keyedByUserAndFile_def
           split: option.splits)

lemma bucketKeyed_savePhotoOnly:
  assumes "bucketKeyed cwd s"
  shows "bucketKeyed cwd (snd (savePhotoOnly cwd env photo uid s))"
proof (cases "sa_write env")
  case (Some e)
  with assms show ?thesis
    by (simp add: savePhotoOnly_write_failed bucketKeyed_def)
next
  case None
  let ?c = "storedPhotoOf photo uid (photoBaseName (sa_now env) photo)"
  let ?s2 = "snd (cacheInMemory ?c uid
      (s\<lparr>disk := (pathJoin [SNAPSHOTS_DIR cwd, photoBaseName (sa_now env) photo],
                   pd_buffer photo) # disk s\<rparr>))"
  have k2: "bucketKeyed cwd ?s2"
    using assms by (simp add: bucketKeyed_def)
  have "snd (savePhotoOnly cwd env photo uid s) = ?s2
      \<or> snd (savePhotoOnly cwd env photo uid s) = uploadToFirebase cwd (sa_upload env) ?c ?s2"
    using None by (simp add: savePhotoOnly_def Let_def snd_rethrow split: option.splits)
  with k2 bucketKeyed_uploadToFirebase [OF k2] show ?thesis
    by auto
qed

lemma bucketKeyed_followUpPhoto:
  assumes "bucketKeyed cwd s"
  shows "bucketKeyed cwd (followUpPhoto cwd env uid s)"
proof (cases "ca_camera env")
  case (Inl e)
  with assms show ?thesis
    by (simp add: followUpPhoto_def bucketKeyed_def)
next
  case (Inr nextPhoto)
  let ?s1 = "s\<lparr>cameraRequests := Suc (cameraRequests s)\<rparr>"
  let ?r = "savePhotoOnly cwd (ca_followUp env) nextPhoto uid ?s1"
  have "bucketKeyed cwd ?s1"
    using assms by (simp add: bucketKeyed_def)
  then have k: "bucketKeyed cwd (snd ?r)"
    by (rule bucketKeyed_savePhotoOnly)
  have "bucket (followUpPhoto cwd env uid s) = bucket (snd ?r)"
    using Inr by (simp add: followUpPhoto_def Let_def state_caught split: option.splits)
  then show ?thesis using k by (rule bucketKeyed_same)
qed

lemma bucketKeyed_saveAndFollowUp:
  assumes "bucketKeyed cwd s"
  shows "bucketKeyed cwd (saveAndFollowUp cwd env photo uid session s)"
proof -
  have d: "bucketKeyed cwd (s\<lparr>disk := x # disk s\<rparr>)" for x
    using assms by (simp add: bucketKeyed_def)
  have l: "bucketKeyed cwd (logError msg s)" for msg
    using assms by (simp add: bucketKeyed_def)
  show ?thesis
    using l d bucketKeyed_followUpPhoto [OF d]
    by (simp add: saveAndFollowUp_def Let_def split: option.splits)
qed

lemma bucketKeyed_cachePhoto:
  assumes "bucketKeyed cwd s"
  shows "bucketKeyed cwd (snd (cachePhoto cwd env photo uid session s))"
proof -
  let ?c = "storedPhotoOf photo uid (photoBaseName (ca_now env) photo)"
  let ?s2 = "snd (cacheInMemory ?c uid (saveAndFollowUp cwd env photo uid session s))"
  have "bucketKeyed cwd (saveAndFollowUp cwd env photo uid session s)"
    using assms by (rule bucketKeyed_saveAndFollowUp)
  then have k2: "bucketKeyed cwd ?s2"
    by (simp add: bucketKeyed_def)
  have "snd (cachePhoto cwd env photo uid session s) = ?s2
      \<or> snd (cachePhoto cwd env photo uid session s) = uploadToFirebase cwd (ca_upload env) ?c ?s2"
    by (simp add: cachePhoto_def Let_def snd_rethrow split: option.splits)
  with k2 bucketKeyed_uploadToFirebase [OF k2] show ?thesis
    by auto
qed

lemma bucketKeyed_onButtonPress:
  assumes "bucketKeyed cwd s"
  shows "bucketKeyed cwd (snd (onButtonPress cwd env uid session button s))"
proof -
  let ?s1 = "s\<lparr>cameraRequests := Suc (cameraRequests s)\<rparr>"
  have k1: "bucketKeyed cwd ?s1"
    using assms by (simp add: bucketKeyed_def)
  have "bucket (snd (onButtonPress cwd env uid session button s)) = bucket s
      \<or> (\<exists>photo. bucket (snd (onButtonPress cwd env uid session button s)) =
            bucket (snd (cachePhoto cwd (pa_cache env) photo uid (Some session) ?s1)))"
    by (auto simp: onButtonPress_def Let_def snd_caught split: sum.splits option.splits)
  then show ?thesis
    using assms bucketKeyed_cachePhoto [OF k1]
    by (auto intro: bucketKeyed_same)
qed

lemma bucketKeyed_autoStreamTick:
  assumes "bucketKeyed cwd s"
  shows "bucketKeyed cwd (snd (autoStreamTick cwd env uid session s))"
proof -
  let ?s2 = "s\<lparr> nextPhotoTime := (nextPhotoTime s)(uid \<mapsto> ta_nowSet env + 30000),
                 cameraRequests := Suc (cameraRequests s),
                 nextPhotoTime := ((nextPhotoTime s)(uid \<mapsto> ta_nowSet env + 30000))(uid \<mapsto> ta_nowAfter env) \<rparr>"
  have k2: "bucketKeyed cwd ?s2"
    using assms by (simp add: bucketKeyed_def)
  have "bucket (snd (autoStreamTick cwd env uid session s)) = bucket s
      \<or> (\<exists>photo. bucket (snd (autoStreamTick cwd env uid session s)) =
            bucket (snd (cachePhoto cwd (ta_cache env) photo uid (Some session) ?s2)))"
    by (auto simp: autoStreamTick_def Let_def snd_caught split: sum.splits option.splits)
  then show ?thesis
    using assms bucketKeyed_cachePhoto [OF k2]
    by (auto intro: bucketKeyed_same)
qed

lemma bucketKeyed_step:
  assumes "bucketKeyed cwd s"
  shows "bucketKeyed cwd (step cwd s ev)"
proof (cases ev)
  case (DirEnsured a)
  with assms show ?thesis
    by (simp add: ensureSnapshotsDirExists_def logWarn_def bucketKeyed_def split: option.splits)
next
  case (SessionStarted now session)
  with assms show ?thesis
    by (simp add: onSession_def Let_def bucketKeyed_def)
next
  case (ButtonPressed session button env)
  with bucketKeyed_onButtonPress [OF assms] show ?thesis by simp
next
  case (TimerFired session env)
  with bucketKeyed_autoStreamTick [OF assms] show ?thesis by simp
next
  case Stopped
  with assms show ?thesis
    by (simp add: onStop_def bucketKeyed_def)
next
  case (CachePhotoCalled photo uid session env)
  with bucketKeyed_cachePhoto [OF assms] show ?thesis by simp
next
  case (SavePhotoOnlyCalled photo uid env)
  with bucketKeyed_savePhotoOnly [OF assms] show ?thesis by simp
qed

lemma bucketKeyed_run: "bucketKeyed cwd (run cwd events)"
proof -
  have "bucketKeyed cwd s \<Longrightarrow> bucketKeyed cwd (foldl (step cwd) s events)" for s
    by (induction events arbitrary: s) (simp_all add: bucketKeyed_step)
  moreover have "bucketKeyed cwd initialApp"
    by (simp add: bucketKeyed_def initialApp_def)
  ultimately show ?thesis
    by (simp add: run_def)
qed

text \<open>
  Claim C5. An upload that the object store accepts has the key
  \<open>sessions/<userId>/images/<filename>\<close>, built from the \<open>userId\<close> and \<open>filename\<close> fields
  of the cached record that \<open>uploadToFirebase\<close> was given. \<open>cachePhoto\<close> and
  \<open>savePhotoOnly\<close> pass the record they have just cached, so the key names the user the
  photo was cached for and the generated file name. Every upload made in a run is keyed
  this way.
\<close>

theorem upload_key_names_user_and_file:
  "bucket (uploadToFirebase cwd ans c s) =
     (case (timestamp c, ans) of
        (Some t, None) \<Rightarrow>
          \<lparr> up_filePath = pathJoin [SNAPSHOTS_DIR cwd, filename c],
            up_destination = ''sessions/'' @ userId c @ ''/images/'' @ filename c,
            up_contentType = mimeType c, up_userId = userId c,
            up_requestId = requestId c, up_timestamp = toISOString t \<rparr> # bucket s
      | _ \<Rightarrow> bucket s)
   \<and> (pd_timestamp photo = Some t \<and> ca_upload cenv = None \<longrightarrow>
        bucket (snd (cachePhoto cwd cenv photo uid session s)) =
          \<lparr> up_filePath = pathJoin [SNAPSHOTS_DIR cwd, photoBaseName (ca_now cenv) photo],
            up_destination = ''sessions/'' @ uid @ ''/images/'' @ photoBaseName (ca_now cenv) photo,
            up_contentType = pd_mimeType photo, up_userId = uid,
            up_requestId = pd_requestId photo, up_timestamp = toISOString t \<rparr>
          # bucket (saveAndFollowUp cwd cenv photo uid session s))
   \<and> (pd_timestamp photo = Some t \<and> sa_write senv = None \<and> sa_upload senv = None \<longrightarrow>
        bucket (snd (savePhotoOnly cwd senv photo uid s)) =
          \<lparr> up_filePath = pathJoin [SNAPSHOTS_DIR cwd, photoBaseName (sa_now senv) photo],
            up_destination = ''sessions/'' @ uid @ ''/images/'' @ photoBaseName (sa_now senv) photo,
            up_contentType = pd_mimeType photo, up_userId = uid,
            up_requestId = pd_requestId photo, up_timestamp = toISOString t \<rparr>
          # bucket s)
   \<and> (\<forall>up\<in>set (bucket (run cwd events)). keyedByUserAndFile cwd up)"
proof (intro conjI impI)
  show "bucket (uploadToFirebase cwd ans c s) =
     (case (timestamp c, ans) of
        (Some t, None) \<Rightarrow>
          \<lparr> up_filePath = pathJoin [SNAPSHOTS_DIR cwd, filename c],
            up_destination = ''sessions/'' @ userId c @ ''/images/'' @ filename c,
            up_contentType = mimeType c, up_userId = userId c,
            up_requestId = requestId c, up_timestamp = toISOString t \<rparr> # bucket s
      | _ \<Rightarrow> bucket s)"
    by (rule bucket_uploadToFirebase)
  show "\<forall>up\<in>set (bucket (run cwd events)). keyedByUserAndFile cwd up"
    using bucketKeyed_run [of cwd events] by (simp add: bucketKeyed_def)
next
  assume "pd_timestamp photo = Some t \<and> ca_upload cenv = None"
  then show "bucket (snd (cachePhoto cwd cenv photo uid session s)) =
          \<lparr> up_filePath = pathJoin [SNAPSHOTS_DIR cwd, photoBaseName (ca_now cenv) photo],
            up_destination = ''sessions/'' @ uid @ ''/images/'' @ photoBaseName (ca_now cenv) photo,
            up_contentType = pd_mimeType photo, up_userId = uid,
            up_requestId = pd_requestId photo, up_timestamp = toISOString t \<rparr>
          # bucket (saveAndFollowUp cwd cenv photo uid session s)"
    by (simp add: bucket_cachePhoto)
next
  assume "pd_timestamp photo = Some t \<and> sa_write senv = None \<and> sa_upload senv = None"
  then show "bucket (snd (savePhotoOnly cwd senv photo uid s)) =
          \<lparr> up_filePath = pathJoin [SNAPSHOTS_DIR cwd, photoBaseName (sa_now senv) photo],
            up_destination = ''sessions/'' @ uid @ ''/images/'' @ photoBaseName (sa_now senv) photo,
            up_contentType = pd_mimeType photo, up_userId = uid,
            up_requestId = pd_requestId photo, up_timestamp = toISOString t \<rparr>
          # bucket s"
    by (simp add: bucket_savePhotoOnly)
qed

theorem upload_key_names_user_and_file_witness:
  "pd_timestamp examplePhoto1 = Some 0 \<and> ca_upload cacheOk = None
   \<and> sa_write saveOk = None \<and> sa_upload saveOk = None
   \<and> map up_destination (bucket (run ''/app'' twoUserEvents))
       = [''sessions/u2/images/photo_1970-01-01T00-00-00.000Z_req1.jpg'',
          ''sessions/u1/images/photo_2023-11-14T22-13-20.000Z_req2.png'']
   \<and> keyedByUserAndFile ''/app'' (bucket (run ''/app'' twoUserEvents) ! 0)
   \<and> map up_destination (bucket (snd (cachePhoto ''/app'' cacheOk examplePhoto1 ''u1'' None initialApp)))
       = [''sessions/u1/images/photo_1970-01-01T00-00-00.000Z_req1.jpg'']
   \<and> map up_destination (bucket (snd (savePhotoOnly ''/app'' saveOk examplePhoto1 ''u1'' initialApp)))
       = [''sessions/u1/images/photo_1970-01-01T00-00-00.000Z_req1.jpg'']"
proof -
  have h1: "pd_timestamp examplePhoto1 = Some 0 \<and> ca_upload cacheOk = None"
    by code_simp
  have h2: "pd_timestamp examplePhoto1 = Some 0 \<and> sa_write saveOk = None \<and> sa_upload saveOk = None"
    by code_simp
  have dests: "map up_destination (bucket (run ''/app'' twoUserEvents))
       = [''sessions/u2/images/photo_1970-01-01T00-00-00.000Z_req1.jpg'',
          ''sessions/u1/images/photo_2023-11-14T22-13-20.000Z_req2.png'']"
    by code_simp
  then have "length (bucket (run ''/app'' twoUserEvents)) = 2"
    by (metis length_map length_Cons list.size(3) numeral_2_eq_2)
  then have mem: "bucket (run ''/app'' twoUserEvents) ! 0 \<in> set (bucket (run ''/app'' twoUserEvents))"
    by simp
  note inst = upload_key_names_user_and_file
      [where photo = examplePhoto1 and t = 0 and cenv = cacheOk and senv = saveOk
        and cwd = "''/app''" and uid = "''u1''" and session = None and s = initialApp
        and events = twoUserEvents]
  from inst mem have keyed: "keyedByUserAndFile ''/app'' (bucket (run ''/app'' twoUserEvents) ! 0)"
    by blast
  have c: "map up_destination (bucket (snd (cachePhoto ''/app'' cacheOk examplePhoto1 ''u1'' None initialApp)))
       = [''sessions/u1/images/photo_1970-01-01T00-00-00.000Z_req1.jpg'']"
    by code_simp
  have sv: "map up_destination (bucket (snd (savePhotoOnly ''/app'' saveOk examplePhoto1 ''u1'' initialApp)))
       = [''sessions/u1/images/photo_1970-01-01T00-00-00.000Z_req1.jpg'']"
    by code_simp
  from h1 h2 dests keyed c sv show ?thesis
    by blast
qed

section \<open>Errors of the camera, the file system and the object store\<close>

text \<open>
  Claim C6. The button listener and the timer callback return normally whatever the
  camera, the file system and the object store answer, and so do \<open>cachePhoto\<close> and
  \<open>savePhotoOnly\<close> for a photo that has a timestamp. A camera error is logged and
  leaves the photo lists as they were; a file-write error is logged, by \<open>cachePhoto\<close>
  before it goes on and by \<open>savePhotoOnly\<close> before it returns; an upload error is
  logged and leaves the rest of the state alone; so is the error of creating the
  snapshots directory.
\<close>

theorem failures_are_caught_and_logged:
  "fst (onButtonPress cwd penv uid session button s) = None
   \<and> fst (autoStreamTick cwd tenv uid session s) = None
   \<and> (pd_timestamp photo \<noteq> None \<longrightarrow>
        fst (cachePhoto cwd cenv photo uid osession s) = None
        \<and> fst (savePhotoOnly cwd senv photo uid s) = None)
   \<and> (pressType button \<noteq> ''long'' \<and> pa_camera penv = Inl ecam \<longrightarrow>
        onButtonPress cwd penv uid session button s =
          (None, logError (''Error taking photo: '' @ errorString ecam)
                   (s\<lparr>cameraRequests := Suc (cameraRequests s)\<rparr>)))
   \<and> (isStreamingPhotos s uid = Some True
        \<and> ta_nowCheck tenv > (case nextPhotoTime s uid of None \<Rightarrow> 0 | Some t \<Rightarrow> t)
        \<and> ta_camera tenv = Inl ecam \<longrightarrow>
        autoStreamTick cwd tenv uid session s =
          (None, logError (''Error auto-taking photo: '' @ errorString ecam)
                   (s\<lparr> nextPhotoTime := (nextPhotoTime s)(uid \<mapsto> ta_nowSet tenv + 30000),
                       cameraRequests := Suc (cameraRequests s) \<rparr>)))
   \<and> (ca_camera cenv = Inl ecam \<longrightarrow>
        followUpPhoto cwd cenv uid s =
          logError (''Error taking follow-up photo: '' @ errorString ecam)
            (s\<lparr>cameraRequests := Suc (cameraRequests s)\<rparr>))
   \<and> (ca_write cenv = Some e \<longrightarrow>
        saveAndFollowUp cwd cenv photo uid osession s =
          logError (''Failed to save photo to file: '' @ errorString e) s)
   \<and> (sa_write senv = Some e \<longrightarrow>
        savePhotoOnly cwd senv photo uid s =
          (None, logError (''Failed to save follow-up photo to file: '' @ errorString e) s))
   \<and> uploadToFirebase cwd (Some eup) c s =
        logError (''Firebase upload failed for '' @ filename c @ '': ''
                  @ errorString (case timestamp c of
                                   None \<Rightarrow> typeErrorReading ''toISOString''
                                 | Some t \<Rightarrow> eup)) s
   \<and> ensureSnapshotsDirExists (Some emk) s =
        logWarn (''Could not create snapshots directory: '' @ errorString emk) s"
proof (intro conjI impI)
  show "fst (onButtonPress cwd penv uid session button s) = None"
    by (rule fst_onButtonPress)
  show "fst (autoStreamTick cwd tenv uid session s) = None"
    by (rule fst_autoStreamTick)
  show "uploadToFirebase cwd (Some eup) c s =
        logError (''Firebase upload failed for '' @ filename c @ '': ''
                  @ errorString (case timestamp c of
                                   None \<Rightarrow> typeErrorReading ''toISOString''
                                 | Some t \<Rightarrow> eup)) s"
    by (rule uploadToFirebase_rejected)
  show "ensureSnapshotsDirExists (Some emk) s =
        logWarn (''Could not create snapshots directory: '' @ errorString emk) s"
    by (simp add: ensureSnapshotsDirExists_def)
next
  assume "pd_timestamp photo \<noteq> None"
  then show "fst (cachePhoto cwd cenv photo uid osession s) = None"
    and "fst (savePhotoOnly cwd senv photo uid s) = None"
    by (auto simp: fst_cachePhoto fst_savePhotoOnly split: option.splits)
next
  assume "pressType button \<noteq> ''long'' \<and> pa_camera penv = Inl ecam"
  then show "onButtonPress cwd penv uid session button s =
          (None, logError (''Error taking photo: '' @ errorString ecam)
                   (s\<lparr>cameraRequests := Suc (cameraRequests s)\<rparr>))"
    by (simp add: onButtonPress_def)
next
  assume "isStreamingPhotos s uid = Some True
        \<and> ta_nowCheck tenv > (case nextPhotoTime s uid of None \<Rightarrow> 0 | Some t \<Rightarrow> t)
        \<and> ta_camera tenv = Inl ecam"
  then show "autoStreamTick cwd tenv uid session s =
          (None, logError (''Error auto-taking photo: '' @ errorString ecam)
                   (s\<lparr> nextPhotoTime := (nextPhotoTime s)(uid \<mapsto> ta_nowSet tenv + 30000),
                       cameraRequests := Suc (cameraRequests s) \<rparr>))"
    by (simp add: autoStreamTick_def)
next
  assume "ca_camera cenv = Inl ecam"
  then show "followUpPhoto cwd cenv uid s =
          logError (''Error taking follow-up photo: '' @ errorString ecam)
            (s\<lparr>cameraRequests := Suc (cameraRequests s)\<rparr>)"
    by (simp add: followUpPhoto_def)
next
  assume "ca_write cenv = Some e"
  then show "saveAndFollowUp cwd cenv photo uid osession s =
          logError (''Failed to save photo to file: '' @ errorString e) s"
    by (simp add: saveAndFollowUp_def)
next
  assume "sa_write senv = Some e"
  then show "savePhotoOnly cwd senv photo uid s =
          (None, logError (''Failed to save follow-up photo to file: '' @ errorString e) s)"
    by (rule savePhotoOnly_write_failed)
qed

theorem failures_are_caught_and_logged_witness:
  "pd_timestamp examplePhoto1 \<noteq> None
   \<and> pressType shortPress \<noteq> ''long'' \<and> pa_camera pressCameraFails = Inl cameraTimeout
   \<and> isStreamingPhotos streamingOn ''u1'' = Some True
   \<and> ta_nowCheck tickCameraFails > (case nextPhotoTime streamingOn ''u1'' of None \<Rightarrow> 0 | Some t \<Rightarrow> t)
   \<and> ta_camera tickCameraFails = Inl cameraTimeout
   \<and> ca_camera cacheAllFail = Inl cameraTimeout
   \<and> ca_write cacheAllFail = Some diskFull
   \<and> sa_write saveWriteFails = Some diskFull
   \<and> fst (cachePhoto ''/app'' cacheAllFail examplePhoto1 ''u1'' (Some exampleSession) streamingOn) = None
   \<and> logged (snd (cachePhoto ''/app'' cacheAllFail examplePhoto1 ''u1'' (Some exampleSession) streamingOn))
       = [LogError ''Firebase upload failed for photo_1970-01-01T00-00-00.000Z_req1.jpg: ReferenceError: bucket is not defined'',
          LogError ''Failed to save photo to file: Error: ENOSPC: no space left on device, write'']
   \<and> onButtonPress ''/app'' pressCameraFails ''u1'' exampleSession shortPress streamingOn =
        (None, logError (''Error taking photo: '' @ errorString cameraTimeout)
                 (streamingOn\<lparr>cameraRequests := Suc (cameraRequests streamingOn)\<rparr>))
   \<and> autoStreamTick ''/app'' tickCameraFails ''u1'' exampleSession streamingOn =
        (None, logError (''Error auto-taking photo: '' @ errorString cameraTimeout)
                 (streamingOn\<lparr> nextPhotoTime := (nextPhotoTime streamingOn)(''u1'' \<mapsto> ta_nowSet tickCameraFails + 30000),
                     cameraRequests := Suc (cameraRequests streamingOn) \<rparr>))
   \<and> savePhotoOnly ''/app'' saveWriteFails examplePhoto1 ''u1'' streamingOn =
        (None, logError (''Failed to save follow-up photo to file: '' @ errorString diskFull) streamingOn)"
proof -
  have h1: "pd_timestamp examplePhoto1 \<noteq> None"
    by code_simp
  have h2: "pressType shortPress \<noteq> ''long'' \<and> pa_camera pressCameraFails = Inl cameraTimeout"
    by code_simp
  have h3: "isStreamingPhotos streamingOn ''u1'' = Some True
      \<and> ta_nowCheck tickCameraFails > (case nextPhotoTime streamingOn ''u1'' of None \<Rightarrow> 0 | Some t \<Rightarrow> t)
      \<and> ta_camera tickCameraFails = Inl cameraTimeout"
    by code_simp
  have h4: "ca_camera cacheAllFail = Inl cameraTimeout"
    by code_simp
  have h5: "ca_write cacheAllFail = Some diskFull"
    by code_simp
  have h6: "sa_write saveWriteFails = Some diskFull"
    by code_simp
  have lg: "logged (snd (cachePhoto ''/app'' cacheAllFail examplePhoto1 ''u1'' (Some exampleSession) streamingOn))
       = [LogError ''Firebase upload failed for photo_1970-01-01T00-00-00.000Z_req1.jpg: ReferenceError: bucket is not defined'',
          LogError ''Failed to save photo to file: Error: ENOSPC: no space left on device, write'']"
    by code_simp
  note inst = failures_are_caught_and_logged
      [where photo = examplePhoto1 and button = shortPress and penv = pressCameraFails
        and ecam = cameraTimeout and s = streamingOn and uid = "''u1''"
        and tenv = tickCameraFails and cenv = cacheAllFail and e = diskFull
        and senv = saveWriteFails and cwd = "''/app''" and session = exampleSession
        and osession = "Some exampleSession"]
  from inst h1 h2 h3 h4 h5 h6 lg show ?thesis
    by blast
qed

section \<open>The auto-capture timer\<close>

text \<open>
  Claim C7. \<open>onSession\<close> registers one timer for the user, with a period of 1000 ms.
  A firing of the timer asks the camera for a photo exactly when the user's streaming
  flag is \<open>true\<close> and the clock is past the user's next-photo time (0 when there is
  none). When the flag is not \<open>true\<close> the firing changes nothing, so any number of
  firings leaves the state, and with it the count of camera requests, as it was.
\<close>

theorem auto_capture_polls_the_streaming_flag:
  "timers (onSession now session s) = (userIdOfSession session, 1000) # timers s
   \<and> (isStreamingPhotos s uid \<noteq> Some True \<longrightarrow>
        autoStreamTick cwd env uid session s = (None, s)
        \<and> foldl (\<lambda>st env. snd (autoStreamTick cwd env uid session st)) s envs = s)
   \<and> (cameraRequests s < cameraRequests (snd (autoStreamTick cwd env uid session s))
        \<longleftrightarrow> isStreamingPhotos s uid = Some True
            \<and> ta_nowCheck env > (case nextPhotoTime s uid of None \<Rightarrow> 0 | Some t \<Rightarrow> t))
   \<and> cameraRequests s \<le> cameraRequests (snd (autoStreamTick cwd env uid session s))"
proof (intro conjI impI)
  show "timers (onSession now session s) = (userIdOfSession session, 1000) # timers s"
    by (simp add: onSession_def Let_def autoStreamPeriodMs_def)
  show "cameraRequests s < cameraRequests (snd (autoStreamTick cwd env uid session s))
        \<longleftrightarrow> isStreamingPhotos s uid = Some True
            \<and> ta_nowCheck env > (case nextPhotoTime s uid of None \<Rightarrow> 0 | Some t \<Rightarrow> t)"
    by (simp add: cameraRequests_autoStreamTick split: sum.splits)
  show "cameraRequests s \<le> cameraRequests (snd (autoStreamTick cwd env uid session s))"
    by (simp add: cameraRequests_autoStreamTick split: sum.splits)
next
  assume off: "isStreamingPhotos s uid \<noteq> Some True"
  then show "autoStreamTick cwd env uid session s = (None, s)"
    by (simp add: autoStreamTick_idle)
  from off show "foldl (\<lambda>st env. snd (autoStreamTick cwd env uid session st)) s envs = s"
    by (rule idle_ticks)
qed

theorem auto_capture_polls_the_streaming_flag_witness:
  "isStreamingPhotos sessionOpened ''u1'' \<noteq> Some True
   \<and> timers sessionOpened = [(''u1'', 1000)]
   \<and> cameraRequests (snd (autoStreamTick ''/app'' tickOk ''u1'' exampleSession sessionOpened))
       = cameraRequests sessionOpened
   \<and> cameraRequests (foldl (\<lambda>st env. snd (autoStreamTick ''/app'' env ''u1'' exampleSession st))
                         sessionOpened [tickOk, tickOk, tickOk]) = 0
   \<and> isStreamingPhotos streamingOn ''u1'' = Some True
   \<and> cameraRequests (snd (autoStreamTick ''/app'' tickOk ''u1'' exampleSession streamingOn)) = 2"
proof -
  have h: "isStreamingPhotos sessionOpened ''u1'' \<noteq> Some True"
    by code_simp
  have t: "timers sessionOpened = [(''u1'', 1000)]"
    by code_simp
  have z: "cameraRequests sessionOpened = 0"
    by code_simp
  have on: "isStreamingPhotos streamingOn ''u1'' = Some True"
    by code_simp
  have two: "cameraRequests (snd (autoStreamTick ''/app'' tickOk ''u1'' exampleSession streamingOn)) = 2"
    by code_simp
  from h t z on two
    auto_capture_polls_the_streaming_flag [where s = sessionOpened and uid = "''u1''"
      and cwd = "''/app''" and env = tickOk and session = exampleSession
      and envs = "[tickOk, tickOk, tickOk]"]
  show ?thesis by simp
qed

section \<open>A failed file write\<close>

text \<open>
  Claim C8. When the file write fails, \<open>cachePhoto\<close> logs the failure and goes on: for
  a photo with a timestamp it returns normally, the record is at the head of the
  user's list, the user's latest-photo timestamp is the photo's, nothing is written
  to disk, no follow-up photo is requested, and the upload is attempted (the store
  receives the record when it accepts the call, and the rejection is logged when it
  does not). \<open>savePhotoOnly\<close> returns at once: apart from the logged failure the state
  is unchanged, so the list, the latest-photo timestamp and the store are as before.
\<close>

theorem write_failure_cachePhoto_and_savePhotoOnly_differ:
  "(ca_write env = Some e \<and> pd_timestamp photo = Some t \<longrightarrow>
      cachePhoto cwd env photo uid session s =
        (None,
         uploadToFirebase cwd (ca_upload env)
           (storedPhotoOf photo uid (photoBaseName (ca_now env) photo))
           ((logError (''Failed to save photo to file: '' @ errorString e) s)
              \<lparr> photos := (photos s)(uid \<mapsto>
                   take 50 (storedPhotoOf photo uid (photoBaseName (ca_now env) photo)
                            # photoList s uid)),
                latestPhotoTimestamp := (latestPhotoTimestamp s)(uid \<mapsto> t) \<rparr>))
      \<and> photoList (snd (cachePhoto cwd env photo uid session s)) uid
          = take 50 (storedPhotoOf photo uid (photoBaseName (ca_now env) photo)
                     # photoList s uid)
      \<and> latestPhotoTimestamp (snd (cachePhoto cwd env photo uid session s)) uid = Some t
      \<and> disk (snd (cachePhoto cwd env photo uid session s)) = disk s
      \<and> cameraRequests (snd (cachePhoto cwd env photo uid session s)) = cameraRequests s
      \<and> bucket (snd (cachePhoto cwd env photo uid session s))
          = (case ca_upload env of
               None \<Rightarrow>
                 [\<lparr> up_filePath = pathJoin [SNAPSHOTS_DIR cwd, photoBaseName (ca_now env) photo],
                    up_destination = ''sessions/'' @ uid @ ''/images/''
                                     @ photoBaseName (ca_now env) photo,
                    up_contentType = pd_mimeType photo, up_userId = uid,
                    up_requestId = pd_requestId photo, up_timestamp = toISOString t \<rparr>]
             | Some err \<Rightarrow> []) @ bucket s
      \<and> logged (snd (cachePhoto cwd env photo uid session s))
          = (case ca_upload env of
               None \<Rightarrow> []
             | Some err \<Rightarrow>
                 [LogError (''Firebase upload failed for '' @ photoBaseName (ca_now env) photo
                            @ '': '' @ errorString err)])
            @ LogError (''Failed to save photo to file: '' @ errorString e) # logged s)
   \<and> (sa_write senv = Some e \<longrightarrow>
        savePhotoOnly cwd senv photo uid s =
          (None, logError (''Failed to save follow-up photo to file: '' @ errorString e) s)
        \<and> photos (snd (savePhotoOnly cwd senv photo uid s)) = photos s
        \<and> latestPhotoTimestamp (snd (savePhotoOnly cwd senv photo uid s)) = latestPhotoTimestamp s
        \<and> bucket (snd (savePhotoOnly cwd senv photo uid s)) = bucket s
        \<and> disk (snd (savePhotoOnly cwd senv photo uid s)) = disk s)"
proof (intro conjI impI)
  assume h: "ca_write env = Some e \<and> pd_timestamp photo = Some t"
  let ?c = "storedPhotoOf photo uid (photoBaseName (ca_now env) photo)"
  from h have eq: "cachePhoto cwd env photo uid session s =
        (None,
         uploadToFirebase cwd (ca_upload env) ?c
           ((logError (''Failed to save photo to file: '' @ errorString e) s)
              \<lparr> photos := (photos s)(uid \<mapsto> take 50 (?c # photoList s uid)),
                latestPhotoTimestamp := (latestPhotoTimestamp s)(uid \<mapsto> t) \<rparr>))"
    by (simp add: cachePhoto_write_failed)
  then show "cachePhoto cwd env photo uid session s =
        (None,
         uploadToFirebase cwd (ca_upload env) ?c
           ((logError (''Failed to save photo to file: '' @ errorString e) s)
              \<lparr> photos := (photos s)(uid \<mapsto> take 50 (?c # photoList s uid)),
                latestPhotoTimestamp := (latestPhotoTimestamp s)(uid \<mapsto> t) \<rparr>))" .
  show "photoList (snd (cachePhoto cwd env photo uid session s)) uid = take 50 (?c # photoList s uid)"
    by (simp add: eq photoList_def)
  show "latestPhotoTimestamp (snd (cachePhoto cwd env photo uid session s)) uid = Some t"
    by (simp add: eq)
  show "disk (snd (cachePhoto cwd env photo uid session s)) = disk s"
    by (simp add: eq)
  show "cameraRequests (snd (cachePhoto cwd env photo uid session s)) = cameraRequests s"
    by (simp add: eq)
  have ts: "timestamp ?c = Some t"
    using h by (simp add: storedPhotoOf_def)
  from ts show "bucket (snd (cachePhoto cwd env photo uid session s))
          = (case ca_upload env of
               None \<Rightarrow>
                 [\<lparr> up_filePath = pathJoin [SNAPSHOTS_DIR cwd, photoBaseName (ca_now env) photo],
                    up_destination = ''sessions/'' @ uid @ ''/images/''
                                     @ photoBaseName (ca_now env) photo,
                    up_contentType = pd_mimeType photo, up_userId = uid,
                    up_requestId = pd_requestId photo, up_timestamp = toISOString t \<rparr>]
             | Some err \<Rightarrow> []) @ bucket s"
    by (cases "ca_upload env")
       (simp_all add: eq bucket_uploadToFirebase, simp add: storedPhotoOf_def)
  from ts show "logged (snd (cachePhoto cwd env photo uid session s))
          = (case ca_upload env of
               None \<Rightarrow> []
             | Some err \<Rightarrow>
                 [LogError (''Firebase upload failed for '' @ photoBaseName (ca_now env) photo
                            @ '': '' @ errorString err)])
            @ LogError (''Failed to save photo to file: '' @ errorString e) # logged s"
    by (cases "ca_upload env")
       (simp_all add: eq logged_uploadToFirebase, simp add: storedPhotoOf_def)
next
  assume h: "sa_write senv = Some e"
  then show eq: "savePhotoOnly cwd senv photo uid s =
          (None, logError (''Failed to save follow-up photo to file: '' @ errorString e) s)"
    by (rule savePhotoOnly_write_failed)
  show "photos (snd (savePhotoOnly cwd senv photo uid s)) = photos s"
    by (simp add: eq)
  show "latestPhotoTimestamp (snd (savePhotoOnly cwd senv photo uid s)) = latestPhotoTimestamp s"
    by (simp add: eq)
  show "bucket (snd (savePhotoOnly cwd senv photo uid s)) = bucket s"
    by (simp add: eq)
  show "disk (snd (savePhotoOnly cwd senv photo uid s)) = disk s"
    by (simp add: eq)
qed

theorem write_failure_cachePhoto_and_savePhotoOnly_differ_witness:
  "(ca_write cacheWriteFails = Some diskFull \<and> pd_timestamp examplePhoto1 = Some 0)
   \<and> sa_write saveWriteFails = Some diskFull
   \<and> map requestId (photoList stateWithOnePhoto ''u1'') = [Some ''req2'']
   \<and> map requestId (photoList (snd (cachePhoto ''/app'' cacheWriteFails examplePhoto1 ''u1''
                                      (Some exampleSession) stateWithOnePhoto)) ''u1'')
       = [Some ''req1'', Some ''req2'']
   \<and> latestPhotoTimestamp (snd (cachePhoto ''/app'' cacheWriteFails examplePhoto1 ''u1''
                                   (Some exampleSession) stateWithOnePhoto)) ''u1'' = Some 0
   \<and> disk (snd (cachePhoto ''/app'' cacheWriteFails examplePhoto1 ''u1''
                   (Some exampleSession) stateWithOnePhoto)) = disk stateWithOnePhoto
   \<and> map up_destination (bucket (snd (cachePhoto ''/app'' cacheWriteFails examplePhoto1 ''u1''
                                        (Some exampleSession) stateWithOnePhoto)))
       = [''sessions/u1/images/photo_1970-01-01T00-00-00.000Z_req1.jpg'',
          ''sessions/u1/images/photo_2023-11-14T22-13-20.000Z_req2.png'']
   \<and> photos (snd (savePhotoOnly ''/app'' saveWriteFails examplePhoto1 ''u1'' stateWithOnePhoto))
       = photos stateWithOnePhoto
   \<and> latestPhotoTimestamp (snd (savePhotoOnly ''/app'' saveWriteFails examplePhoto1 ''u1''
                                   stateWithOnePhoto))
       = latestPhotoTimestamp stateWithOnePhoto
   \<and> bucket (snd (savePhotoOnly ''/app'' saveWriteFails examplePhoto1 ''u1'' stateWithOnePhoto))
       = bucket stateWithOnePhoto"
proof -
  have h1: "ca_write cacheWriteFails = Some diskFull \<and> pd_timestamp examplePhoto1 = Some 0"
    by code_simp
  have h2: "sa_write saveWriteFails = Some diskFull"
    by code_simp
  have before: "map requestId (photoList stateWithOnePhoto ''u1'') = [Some ''req2'']"
    by code_simp
  have ids: "map requestId (take 50 (storedPhotoOf examplePhoto1 ''u1''
                 (photoBaseName (ca_now cacheWriteFails) examplePhoto1)
               # photoList stateWithOnePhoto ''u1'')) = [Some ''req1'', Some ''req2'']"
    by code_simp
  have dests: "map up_destination (bucket (snd (cachePhoto ''/app'' cacheWriteFails examplePhoto1 ''u1''
                                        (Some exampleSession) stateWithOnePhoto)))
       = [''sessions/u1/images/photo_1970-01-01T00-00-00.000Z_req1.jpg'',
          ''sessions/u1/images/photo_2023-11-14T22-13-20.000Z_req2.png'']"
    by code_simp
  note inst = write_failure_cachePhoto_and_savePhotoOnly_differ
      [where env = cacheWriteFails and e = diskFull and photo = examplePhoto1 and t = 0
        and cwd = "''/app''" and uid = "''u1''" and session = "Some exampleSession"
        and s = stateWithOnePhoto and senv = saveWriteFails]
  from inst h1
  have pl: "photoList (snd (cachePhoto ''/app'' cacheWriteFails examplePhoto1 ''u1''
                             (Some exampleSession) stateWithOnePhoto)) ''u1''
            = take 50 (storedPhotoOf examplePhoto1 ''u1''
                         (photoBaseName (ca_now cacheWriteFails) examplePhoto1)
                       # photoList stateWithOnePhoto ''u1'')"
    and lt: "latestPhotoTimestamp (snd (cachePhoto ''/app'' cacheWriteFails examplePhoto1 ''u1''
                                   (Some exampleSession) stateWithOnePhoto)) ''u1'' = Some 0"
    and dk: "disk (snd (cachePhoto ''/app'' cacheWriteFails examplePhoto1 ''u1''
                   (Some exampleSession) stateWithOnePhoto)) = disk stateWithOnePhoto"
    by blast+
  from inst h2
  have sp: "photos (snd (savePhotoOnly ''/app'' saveWriteFails examplePhoto1 ''u1'' stateWithOnePhoto))
       = photos stateWithOnePhoto"
    and sl: "latestPhotoTimestamp (snd (savePhotoOnly ''/app'' saveWriteFails examplePhoto1 ''u1''
                                   stateWithOnePhoto))
       = latestPhotoTimestamp stateWithOnePhoto"
    and sb: "bucket (snd (savePhotoOnly ''/app'' saveWriteFails examplePhoto1 ''u1'' stateWithOnePhoto))
       = bucket stateWithOnePhoto"
    by blast+
  have ids': "map requestId (photoList (snd (cachePhoto ''/app'' cacheWriteFails examplePhoto1 ''u1''
                                      (Some exampleSession) stateWithOnePhoto)) ''u1'')
       = [Some ''req1'', Some ''req2'']"
    by (simp only: pl ids)
  from h1 h2 before ids' lt dk dests sp sl sb show ?thesis
    by blast
qed

section \<open>Every record is stored under its own user\<close>

lemma photos_owned_in_runs:
  "photosInv (\<lambda>uid l. \<forall>p\<in>set l. userId p = uid) (run cwd events)"
proof (rule photosInv_run)
  fix uid and c :: StoredPhoto and l :: "StoredPhoto list"
  assume "\<forall>p\<in>set l. userId p = uid" and "userId c = uid"
  then show "\<forall>p\<in>set (take 50 (c # l)). userId p = uid"
    by (auto dest: in_set_takeD)
qed simp

lemma photoRoute_authenticated:
  "uid \<noteq> [] \<Longrightarrow>
   photoRoute (Some uid) rid s =
     (case find (\<lambda>p. requestId p = Some rid) (photoList s uid) of
        None \<Rightarrow> Inr \<lparr> status = 404, headers = [], body = JsonError ''Photo not found'' \<rparr>
      | Some photo \<Rightarrow>
          Inr \<lparr> status = 200,
                headers = [(''Content-Type'', mimeType photo),
                           (''Cache-Control'', Some ''no-cache'')],
                body = Binary (buffer photo) \<rparr>)"
  by (simp add: photoRoute_def authenticatedUser_def)

text \<open>
  Claim C9. An authenticated request to \<open>/api/photo/:requestId\<close> is answered from the
  list stored under the requesting user alone: the answer is the buffer of the first
  record of that list with the requested id, served with that record's MIME type, and
  404 when the list has none. Two states that agree on this user's list give the same
  answer, whatever they hold for other users, and in every state of a run the record
  served was cached for the requesting user.
\<close>

theorem photo_route_serves_own_photos:
  "uid \<noteq> [] \<longrightarrow>
     photoRoute (Some uid) rid s =
       (case find (\<lambda>p. requestId p = Some rid) (photoList s uid) of
          None \<Rightarrow> Inr \<lparr> status = 404, headers = [], body = JsonError ''Photo not found'' \<rparr>
        | Some photo \<Rightarrow>
            Inr \<lparr> status = 200,
                  headers = [(''Content-Type'', mimeType photo),
                             (''Cache-Control'', Some ''no-cache'')],
                  body = Binary (buffer photo) \<rparr>)
     \<and> (photos s' uid = photos s uid \<longrightarrow>
          photoRoute (Some uid) rid s' = photoRoute (Some uid) rid s)
     \<and> (statusOf (photoRoute (Some uid) rid (run cwd events)) = Some 200 \<longrightarrow>
          (\<exists>p\<in>set (photoList (run cwd events) uid).
              userId p = uid \<and> requestId p = Some rid
              \<and> photoRoute (Some uid) rid (run cwd events) =
                  Inr \<lparr> status = 200,
                        headers = [(''Content-Type'', mimeType p),
                                   (''Cache-Control'', Some ''no-cache'')],
                        body = Binary (buffer p) \<rparr>))"
proof (intro impI conjI)
  assume uid: "uid \<noteq> []"
  then show "photoRoute (Some uid) rid s =
       (case find (\<lambda>p. requestId p = Some rid) (photoList s uid) of
          None \<Rightarrow> Inr \<lparr> status = 404, headers = [], body = JsonError ''Photo not found'' \<rparr>
        | Some photo \<Rightarrow>
            Inr \<lparr> status = 200,
                  headers = [(''Content-Type'', mimeType photo),
                             (''Cache-Control'', Some ''no-cache'')],
                  body = Binary (buffer photo) \<rparr>)"
    by (rule photoRoute_authenticated)
  {
    assume "photos s' uid = photos s uid"
    then have "photoList s' uid = photoList s uid"
      by (simp add: photoList_def)
    then show "photoRoute (Some uid) rid s' = photoRoute (Some uid) rid s"
      by (simp add: photoRoute_authenticated [OF uid])
  }
  {
    let ?s = "run cwd events"
    assume ok: "statusOf (photoRoute (Some uid) rid ?s) = Some 200"
    then obtain p where p: "find (\<lambda>p. requestId p = Some rid) (photoList ?s uid) = Some p"
      by (cases "find (\<lambda>p. requestId p = Some rid) (photoList ?s uid)")
         (simp_all add: photoRoute_authenticated [OF uid] statusOf_def)
    then have mem: "p \<in> set (photoList ?s uid)" and rid: "requestId p = Some rid"
      by (auto simp: find_Some_iff)
    from photos_owned_in_runs [of cwd events] mem have "userId p = uid"
      by (simp add: photosInv_def)
    with mem rid p show "\<exists>p\<in>set (photoList ?s uid).
              userId p = uid \<and> requestId p = Some rid
              \<and> photoRoute (Some uid) rid ?s =
                  Inr \<lparr> status = 200,
                        headers = [(''Content-Type'', mimeType p),
                                   (''Cache-Control'', Some ''no-cache'')],
                        body = Binary (buffer p) \<rparr>"
      by (auto simp: photoRoute_authenticated [OF uid])
  }
qed

theorem photo_route_serves_own_photos_witness:
  "''u1'' \<noteq> []
   \<and> photos (run ''/app'' twoUserEvents) ''u1'' = photos stateWithOnePhoto ''u1''
   \<and> statusOf (photoRoute (Some ''u1'') ''req2'' (run ''/app'' twoUserEvents)) = Some 200
   \<and> map requestId (photoList (run ''/app'' twoUserEvents) ''u2'') = [Some ''req1'']
   \<and> statusOf (photoRoute (Some ''u1'') ''req1'' (run ''/app'' twoUserEvents)) = Some 404
   \<and> photoRoute (Some ''u1'') ''req2'' (run ''/app'' twoUserEvents)
       = photoRoute (Some ''u1'') ''req2'' stateWithOnePhoto
   \<and> (\<exists>p\<in>set (photoList (run ''/app'' twoUserEvents) ''u1'').
         userId p = ''u1'' \<and> requestId p = Some ''req2''
         \<and> photoRoute (Some ''u1'') ''req2'' (run ''/app'' twoUserEvents) =
             Inr \<lparr> status = 200,
                   headers = [(''Content-Type'', mimeType p),
                              (''Cache-Control'', Some ''no-cache'')],
                   body = Binary (buffer p) \<rparr>)"
proof -
  have h1: "''u1'' \<noteq> []"
    by simp
  have h2: "photos (run ''/app'' twoUserEvents) ''u1'' = photos stateWithOnePhoto ''u1''"
    by code_simp
  have h3: "statusOf (photoRoute (Some ''u1'') ''req2'' (run ''/app'' twoUserEvents)) = Some 200"
    by code_simp
  have other: "map requestId (photoList (run ''/app'' twoUserEvents) ''u2'') = [Some ''req1'']"
    by code_simp
  have missing: "statusOf (photoRoute (Some ''u1'') ''req1'' (run ''/app'' twoUserEvents)) = Some 404"
    by code_simp
  from h1 h2 h3 other missing
    photo_route_serves_own_photos [where uid = "''u1''" and rid = "''req2''"
      and s = stateWithOnePhoto and s' = "run ''/app'' twoUserEvents"
      and cwd = "''/app''" and events = twoUserEvents]
  show ?thesis by blast
qed

section \<open>The two versions of the in-memory update\<close>

text \<open>
  Claim C10. The in-memory update of the earlier version and that of \<open>src/index.ts\<close>
  are the same function. From states that hold the same list for the user, and with
  the same record, both leave the record in front of the prior list, cut to 50 entries,
  both return or throw alike, and both store the record's time value as the user's
  latest-photo timestamp. Called without a session, so that no follow-up photo comes
  in between, the \<open>cachePhoto\<close> of \<open>src/index.ts\<close> leaves the same lists, the same
  latest-photo timestamps and the same files as the earlier \<open>cachePhoto\<close>.
\<close>

theorem in_memory_update_same_in_both_versions:
  "cacheInMemory_part_000 c uid s = cacheInMemory c uid s
   \<and> (photos s uid = photos s0 uid \<longrightarrow>
        photoList (snd (cacheInMemory c uid s)) uid = take 50 (c # photoList s0 uid)
        \<and> photoList (snd (cacheInMemory_part_000 c uid s0)) uid = take 50 (c # photoList s0 uid)
        \<and> fst (cacheInMemory c uid s) = fst (cacheInMemory_part_000 c uid s0)
        \<and> (timestamp c \<noteq> None \<longrightarrow>
             latestPhotoTimestamp (snd (cacheInMemory c uid s)) uid = timestamp c
             \<and> latestPhotoTimestamp (snd (cacheInMemory_part_000 c uid s0)) uid = timestamp c))
   \<and> photos (snd (cachePhoto cwd env photo uid None s))
       = photos (snd (cachePhoto_part_000 cwd (ca_now env) (ca_write env) photo uid s))
   \<and> latestPhotoTimestamp (snd (cachePhoto cwd env photo uid None s))
       = latestPhotoTimestamp (snd (cachePhoto_part_000 cwd (ca_now env) (ca_write env) photo uid s))
   \<and> disk (snd (cachePhoto cwd env photo uid None s))
       = disk (snd (cachePhoto_part_000 cwd (ca_now env) (ca_write env) photo uid s))"
proof (intro conjI impI)
  show "photos (snd (cachePhoto cwd env photo uid None s))
       = photos (snd (cachePhoto_part_000 cwd (ca_now env) (ca_write env) photo uid s))"
    and "latestPhotoTimestamp (snd (cachePhoto cwd env photo uid None s))
       = latestPhotoTimestamp (snd (cachePhoto_part_000 cwd (ca_now env) (ca_write env) photo uid s))"
    and "disk (snd (cachePhoto cwd env photo uid None s))
       = disk (snd (cachePhoto_part_000 cwd (ca_now env) (ca_write env) photo uid s))"
    using cachePhoto_without_follow_up [of cwd env photo uid s] by blast+
  show "cacheInMemory_part_000 c uid s = cacheInMemory c uid s"
    by (rule cacheInMemory_versions)
  show "photoList (snd (cacheInMemory_part_000 c uid s0)) uid = take 50 (c # photoList s0 uid)"
    by (simp only: cacheInMemory_versions photoList_cacheInMemory)
  show "fst (cacheInMemory c uid s) = fst (cacheInMemory_part_000 c uid s0)"
    by (simp only: cacheInMemory_versions fst_cacheInMemory)
next
  assume "photos s uid = photos s0 uid"
  then show "photoList (snd (cacheInMemory c uid s)) uid = take 50 (c # photoList s0 uid)"
    by (rule photoList_cacheInMemory_prior)
next
  assume t: "timestamp c \<noteq> None"
  then show "latestPhotoTimestamp (snd (cacheInMemory c uid s)) uid = timestamp c"
    by (auto simp: latest_cacheInMemory)
  from t show "latestPhotoTimestamp (snd (cacheInMemory_part_000 c uid s0)) uid = timestamp c"
    by (auto simp: cacheInMemory_versions latest_cacheInMemory)
qed

theorem in_memory_update_same_in_both_versions_witness:
  "photos (run ''/app'' twoUserEvents) ''u1'' = photos stateWithOnePhoto ''u1''
   \<and> timestamp exampleStored \<noteq> None
   \<and> photoList (snd (cacheInMemory exampleStored ''u1'' (run ''/app'' twoUserEvents))) ''u1''
       = photoList (snd (cacheInMemory_part_000 exampleStored ''u1'' stateWithOnePhoto)) ''u1''
   \<and> map requestId (photoList (snd (cacheInMemory_part_000 exampleStored ''u1'' stateWithOnePhoto)) ''u1'')
       = [Some ''req1'', Some ''req2'']
   \<and> latestPhotoTimestamp (snd (cacheInMemory exampleStored ''u1'' (run ''/app'' twoUserEvents))) ''u1''
       = Some 0
   \<and> latestPhotoTimestamp (snd (cacheInMemory_part_000 exampleStored ''u1'' stateWithOnePhoto)) ''u1''
       = Some 0"
proof -
  have h1: "photos (run ''/app'' twoUserEvents) ''u1'' = photos stateWithOnePhoto ''u1''"
    by code_simp
  have h2: "timestamp exampleStored \<noteq> None"
    by code_simp
  have t: "timestamp exampleStored = Some 0"
    by code_simp
  have ids: "map requestId (take 50 (exampleStored # photoList stateWithOnePhoto ''u1''))
       = [Some ''req1'', Some ''req2'']"
    by code_simp
  from h1 h2 t ids
    in_memory_update_same_in_both_versions [where c = exampleStored and uid = "''u1''"
      and s = "run ''/app'' twoUserEvents" and ?s0.0 = stateWithOnePhoto]
  show ?thesis by simp
qed

end
